theory Spec2Isabelle
  imports Complex_Main "HOL-Library.Log_Nat" "HOL-Library.Multiset"
begin

text \<open>
  A shallow embedding of the detection utilities of pytorch-hrvvi-ext: anchor locations,
  coordinate encoding, anchor matching (\<open>MultiLevelAnchorMatching\<close>, \<open>match_anchors\<close>,
  \<open>match_anchors2\<close>), the multi-box loss and the evaluation by average precision.
  The first part holds the definitions, function by function as in the sources; the
  second part, from the section Results on, holds what is proved about them.
\<close>

section \<open>Common data\<close>

text \<open>
  Tensors of floats are modelled over exact reals, Python integers as \<open>int\<close> or \<open>nat\<close>.
  A box is one row of a \<open>(N, 4)\<close> tensor.  Exceptions are values of \<open>py_error\<close>.
\<close>

datatype py_error =
  ValueError | IndexError | OverflowError | AttributeError | RuntimeError | TypeError

type_synonym box = "real \<times> real \<times> real \<times> real"

section \<open>\<open>get_locations\<close> (hutil/detection/__init__.py)\<close>

text \<open>
  \<open>np.log2\<close> belongs to numpy, not to the repository, and computes in 64-bit floating
  point: it is the parameter \<open>np_log2\<close> of \<open>get_locations\<close>.  Its result is a float
  (finite, infinite or \<open>nan\<close>); it raises TypeError on an integer that no 64-bit integer
  type holds.  Nothing is assumed about how the finite results are rounded.
\<close>

datatype np_float = Finite real | PosInf | NegInf | NaN

text \<open>
  \<open>int(x)\<close> for a float: a finite value is truncated towards zero, an infinite one raises
  OverflowError and \<open>nan\<close> raises ValueError.
\<close>

definition py_int :: "np_float \<Rightarrow> py_error + int" where
  "py_int x =
     (case x of
        Finite r \<Rightarrow> Inr (if 0 \<le> r then \<lfloor>r\<rfloor> else \<lceil>r\<rceil>)
      | PosInf \<Rightarrow> Inl OverflowError
      | NegInf \<Rightarrow> Inl OverflowError
      | NaN \<Rightarrow> Inl ValueError)"

text \<open>\<open>int(np.log2(s))\<close>\<close>

definition int_log2 :: "(int \<Rightarrow> py_error + np_float) \<Rightarrow> int \<Rightarrow> py_error + int" where
  "int_log2 np_log2 s = (case np_log2 s of Inl e \<Rightarrow> Inl e | Inr x \<Rightarrow> py_int x)"

definition halve :: "int \<Rightarrow> int" where
  "halve l = (l - 1) div 2 + 1"

text \<open>The \<open>for _ in range(num_levels)\<close> loop; \<open>locations\<close> is the list built so far.\<close>

fun locations_loop :: "nat \<Rightarrow> int \<Rightarrow> int \<Rightarrow> (int \<times> int) list \<Rightarrow> (int \<times> int) list" where
  "locations_loop 0 lx ly locations = locations"
| "locations_loop (Suc n) lx ly locations =
     (let lx' = halve lx; ly' = halve ly
      in locations_loop n lx' ly' (locations @ [(lx', ly')]))"

text \<open>Python's \<open>xs[-k:]\<close> for \<open>k \<ge> 0\<close>: the start is clipped at 0, and \<open>-0\<close> is 0.\<close>

definition slice_last :: "'a list \<Rightarrow> nat \<Rightarrow> 'a list" where
  "slice_last xs k = (if k = 0 then xs else drop (length xs - k) xs)"

text \<open>
  \<open>get_locations\<close>.  \<open>strides[-1]\<close> raises IndexError on an empty list; \<open>range\<close> of a
  negative number is empty.
\<close>

definition get_locations ::
  "(int \<Rightarrow> py_error + np_float) \<Rightarrow> int \<times> int \<Rightarrow> int list \<Rightarrow> py_error + (int \<times> int) list" where
  "get_locations np_log2 sz strides =
     (if strides = [] then Inl IndexError
      else case int_log2 np_log2 (last strides) of
        Inl e \<Rightarrow> Inl e
      | Inr num_levels \<Rightarrow>
          (case sz of (lx, ly) \<Rightarrow>
             Inr (slice_last (locations_loop (nat num_levels) lx ly [(lx, ly)]) (length strides))))"

text \<open>
  For concrete runs: the logarithm without rounding, which is what \<open>np.log2\<close> returns at
  a power of two below \<open>2\<^sup>6\<^sup>4\<close> (the integer and its logarithm are both floats);
  \<open>-inf\<close> at 0, \<open>nan\<close> at a negative number, TypeError outside the 64-bit integers.
  At the other integers \<open>np.log2\<close> returns a float close to this value, not always this
  value; the runs below are on powers of two.
\<close>

definition log2_unrounded :: "int \<Rightarrow> py_error + np_float" where
  "log2_unrounded s =
     (if 2 ^ 64 \<le> s \<or> s < - (2 ^ 63) then Inl TypeError
      else if 0 < s then Inr (Finite (log 2 (real_of_int s)))
      else if s = 0 then Inr NegInf
      else Inr NaN)"

section \<open>\<open>MultiBoxLoss.__init__\<close>\<close>

text \<open>The two functions \<open>self.criterion\<close> can hold, as tags.\<close>

datatype criterion_fn = F_cross_entropy | focal_loss2

text \<open>
  \<open>neg_pos_ratio\<close> is \<open>None\<close> or the number of negatives kept per positive, a count
  (it is multiplied with \<open>num_pos\<close> and handed to \<open>torch.topk\<close> as \<open>k\<close>).
  The field \<open>p\<close> of the source is \<open>p_print\<close> here.
\<close>

record MultiBoxLoss =
  neg_pos_ratio :: "nat option"
  p_print :: real
  criterion :: criterion_fn

definition MultiBoxLoss_init :: "nat option \<Rightarrow> real \<Rightarrow> string \<Rightarrow> py_error + MultiBoxLoss" where
  "MultiBoxLoss_init npr pr crit =
     (if crit = ''softmax'' then
        Inr \<lparr>neg_pos_ratio = npr, p_print = pr, criterion = F_cross_entropy\<rparr>
      else if crit = ''focal'' then
        Inr \<lparr>neg_pos_ratio = npr, p_print = pr, criterion = focal_loss2\<rparr>
      else Inl ValueError)"

section \<open>\<open>average_precision\<close>\<close>

text \<open>
  \<open>for i in range(len(mpre) - 1, 0, -1): mpre[i - 1] = max(mpre[i - 1], mpre[i])\<close>;
  the first argument is the loop variable \<open>i\<close>, counting down to 1.
\<close>

fun mpre_loop :: "nat \<Rightarrow> real list \<Rightarrow> real list" where
  "mpre_loop 0 mpre = mpre"
| "mpre_loop (Suc j) mpre = mpre_loop j (mpre[j := max (mpre ! j) (mpre ! Suc j)])"

definition average_precision ::
  "real list \<Rightarrow> real list \<Rightarrow> real \<times> real list \<times> real list \<times> nat list" where
  "average_precision recall precision =
     (let mrec = [0] @ recall @ [1];
          mpre = mpre_loop (length precision + 2 - 1) ([0] @ precision @ [0]);
          ii = map Suc (filter (\<lambda>i. tl mrec ! i \<noteq> butlast mrec ! i) [0..<length mrec - 1]);
          ap = fold (\<lambda>i ap. ap + (mrec ! i - mrec ! (i - 1)) * mpre ! i) ii 0
      in (ap, butlast mpre, butlast mrec, ii))"

section \<open>\<open>AP\<close> and \<open>mAP\<close>\<close>

text \<open>
  The class \<open>BBox\<close> (hutil/detection/bbox.py) is not among the sources; \<open>AP\<close> and \<open>mAP\<close>
  read its attributes \<open>image_id\<close>, \<open>category_id\<close> and \<open>bbox\<close> only.  \<open>iou_11\<close>
  (hutil/detection/iou.py) is not among the sources either and is a parameter \<open>iou\<close>.
\<close>

record BBox =
  image_id :: int
  category_id :: int
  bbox :: box

text \<open>
  Python's \<open>max(seq, key=key)\<close>: ValueError on an empty sequence, otherwise the first
  element whose key is maximal (a later element replaces the best one only when its key
  is strictly greater).
\<close>

fun max_loop :: "('a \<Rightarrow> real) \<Rightarrow> 'a \<Rightarrow> 'a list \<Rightarrow> 'a" where
  "max_loop key best [] = best"
| "max_loop key best (x # xs) = max_loop key (if key x > key best then x else best) xs"

definition py_max :: "('a \<Rightarrow> real) \<Rightarrow> 'a list \<Rightarrow> py_error + 'a" where
  "py_max key xs = (case xs of [] \<Rightarrow> Inl ValueError | x # rest \<Rightarrow> Inr (max_loop key x rest))"

text \<open>\<open>[iou_11(dt.bbox, gt.bbox) for gt in gts]\<close>\<close>

definition gt_ious :: "(box \<Rightarrow> box \<Rightarrow> real) \<Rightarrow> 'd BBox_scheme \<Rightarrow> 'g BBox_scheme list \<Rightarrow> real list" where
  "gt_ious iou dt gts = map (\<lambda>gt. iou (bbox dt) (bbox gt)) gts"

text \<open>
  One iteration of the loop of \<open>AP\<close> for detection number \<open>i\<close>;
  the state is \<open>(TP, seen)\<close>.
\<close>

definition AP_step ::
  "(box \<Rightarrow> box \<Rightarrow> real) \<Rightarrow> real \<Rightarrow> 'g BBox_scheme list \<Rightarrow> nat \<Rightarrow> 'd BBox_scheme
     \<Rightarrow> nat list \<times> bool list \<Rightarrow> py_error + (nat list \<times> bool list)" where
  "AP_step iou iou_threshold gts i dt st =
     (case st of (TP, seen) \<Rightarrow>
        let ious = gt_ious iou dt gts in
        case py_max snd (enumerate 0 ious) of
          Inl e \<Rightarrow> Inl e
        | Inr (j_max, iou_max) \<Rightarrow>
            if iou_max > iou_threshold then
              if \<not> seen ! j_max then Inr (TP[i := 1], seen[j_max := True])
              else Inr (TP, seen)
            else Inr (TP, seen))"

fun AP_loop ::
  "(box \<Rightarrow> box \<Rightarrow> real) \<Rightarrow> real \<Rightarrow> 'g BBox_scheme list \<Rightarrow> (nat \<times> 'd BBox_scheme) list
     \<Rightarrow> nat list \<times> bool list \<Rightarrow> py_error + (nat list \<times> bool list)" where
  "AP_loop iou iou_threshold gts [] st = Inr st"
| "AP_loop iou iou_threshold gts ((i, dt) # rest) st =
     (case AP_step iou iou_threshold gts i dt st of
        Inl e \<Rightarrow> Inl e
      | Inr st' \<Rightarrow> AP_loop iou iou_threshold gts rest st')"

text \<open>The arrays \<open>TP\<close> and \<open>seen\<close> when the loop of \<open>AP\<close> has ended.\<close>

definition AP_TP ::
  "(box \<Rightarrow> box \<Rightarrow> real) \<Rightarrow> real \<Rightarrow> 'd BBox_scheme list \<Rightarrow> 'g BBox_scheme list
     \<Rightarrow> py_error + (nat list \<times> bool list)" where
  "AP_TP iou iou_threshold dts gts =
     AP_loop iou iou_threshold gts (enumerate 0 dts)
       (replicate (length dts) 0, replicate (length gts) False)"

text \<open>\<open>np.cumsum\<close>, with the running sum as an accumulator.\<close>

fun cumsum_from :: "nat \<Rightarrow> nat list \<Rightarrow> nat list" where
  "cumsum_from acc [] = []"
| "cumsum_from acc (x # xs) = (acc + x) # cumsum_from (acc + x) xs"

definition cumsum :: "nat list \<Rightarrow> nat list" where
  "cumsum xs = cumsum_from 0 xs"

definition AP ::
  "(box \<Rightarrow> box \<Rightarrow> real) \<Rightarrow> 'd BBox_scheme list \<Rightarrow> 'g BBox_scheme list \<Rightarrow> real \<Rightarrow> py_error + real" where
  "AP iou dts gts iou_threshold =
     (case AP_TP iou iou_threshold dts gts of
        Inl e \<Rightarrow> Inl e
      | Inr (TP, seen) \<Rightarrow>
          let n_positive = length gts;
              FP = map (\<lambda>t. 1 - t) TP;
              acc_fp = cumsum FP;
              acc_tp = cumsum TP;
              recall = map (\<lambda>a. real a / real n_positive) acc_tp;
              precision = map (\<lambda>(a, b). real a / real (b + a)) (zip acc_tp acc_fp)
          in Inr (fst (average_precision recall precision)))"

text \<open>
  \<open>toolz.groupby\<close>: a dictionary from each key to the items with that key, in the order
  of the sequence; the dictionary keeps its keys in the order of their first appearance.
\<close>

fun group_insert :: "'k \<Rightarrow> 'a \<Rightarrow> ('k \<times> 'a list) list \<Rightarrow> ('k \<times> 'a list) list" where
  "group_insert k x [] = [(k, [x])]"
| "group_insert k x ((k', xs) # d) =
     (if k = k' then (k', xs @ [x]) # d else (k', xs) # group_insert k x d)"

definition groupby :: "('a \<Rightarrow> 'k) \<Rightarrow> 'a list \<Rightarrow> ('k \<times> 'a list) list" where
  "groupby key seq = foldl (\<lambda>d item. group_insert (key item) item d) [] seq"

text \<open>
  \<open>np.mean\<close> of a list: \<open>nan\<close> (here \<open>None\<close>) for the empty list and for a list that
  holds a \<open>nan\<close>.
\<close>

definition np_mean :: "real option list \<Rightarrow> real option" where
  "np_mean xs =
     (if xs = [] \<or> None \<in> set xs then None
      else Some (sum_list (map the xs) / real (length xs)))"

text \<open>The first exception of a list of results, or all the values.\<close>

fun collect :: "(py_error + 'a) list \<Rightarrow> py_error + 'a list" where
  "collect [] = Inr []"
| "collect (Inl e # rs) = Inl e"
| "collect (Inr v # rs) = (case collect rs of Inl e \<Rightarrow> Inl e | Inr vs \<Rightarrow> Inr (v # vs))"

text \<open>The body of \<open>for c in classes\<close>: the value appended to \<open>aps\<close>.\<close>

definition class_AP ::
  "(box \<Rightarrow> box \<Rightarrow> real) \<Rightarrow> real \<Rightarrow> (int \<times> 'd BBox_scheme list) list
     \<Rightarrow> int \<times> 'g BBox_scheme list \<Rightarrow> py_error + real option" where
  "class_AP iou iou_threshold class_dts cg =
     (case cg of (c, c_gts) \<Rightarrow>
        case map_of class_dts c of
          None \<Rightarrow> Inr (Some 0)
        | Some c_dts \<Rightarrow>
            (case AP iou c_dts c_gts iou_threshold of Inl e \<Rightarrow> Inl e | Inr ap \<Rightarrow> Inr (Some ap)))"

text \<open>The body of \<open>for i in image_ids\<close>: the value appended to \<open>maps\<close>.\<close>

definition image_AP ::
  "(box \<Rightarrow> box \<Rightarrow> real) \<Rightarrow> real \<Rightarrow> (int \<times> 'd BBox_scheme list) list
     \<Rightarrow> int \<times> 'g BBox_scheme list \<Rightarrow> py_error + real option" where
  "image_AP iou iou_threshold image_dts ig =
     (case ig of (i, i_gts) \<Rightarrow>
        let i_dts = (case map_of image_dts i of None \<Rightarrow> [] | Some ds \<Rightarrow> ds);
            class_dts = groupby category_id i_dts;
            class_gts = groupby category_id i_gts
        in case collect (map (class_AP iou iou_threshold class_dts) class_gts) of
             Inl e \<Rightarrow> Inl e
           | Inr aps \<Rightarrow> Inr (np_mean aps))"

definition mAP ::
  "(box \<Rightarrow> box \<Rightarrow> real) \<Rightarrow> 'd BBox_scheme list \<Rightarrow> 'g BBox_scheme list \<Rightarrow> real
     \<Rightarrow> py_error + real option" where
  "mAP iou detections ground_truths iou_threshold =
     (let image_dts = groupby image_id detections;
          image_gts = groupby image_id ground_truths
      in case collect (map (image_AP iou iou_threshold image_dts) image_gts) of
           Inl e \<Rightarrow> Inl e
         | Inr maps \<Rightarrow> Inr (np_mean maps))"

subsection \<open>Notions used to state the properties of \<open>AP\<close>\<close>

text \<open>\<open>j\<close> is the first position of \<open>xs\<close> that holds the maximum of \<open>xs\<close>.\<close>

definition is_first_max :: "real list \<Rightarrow> nat \<Rightarrow> bool" where
  "is_first_max xs j \<longleftrightarrow>
     j < length xs \<and> (\<forall>k<length xs. xs ! k \<le> xs ! j) \<and> (\<forall>k<j. xs ! k < xs ! j)"

text \<open>The index \<open>j_max\<close> that \<open>AP\<close> computes for the detection \<open>dt\<close>.\<close>

definition j_max_of :: "(box \<Rightarrow> box \<Rightarrow> real) \<Rightarrow> 'g BBox_scheme list \<Rightarrow> 'd BBox_scheme \<Rightarrow> nat" where
  "j_max_of iou gts dt = fst (projr (py_max snd (enumerate 0 (gt_ious iou dt gts))))"

text \<open>The number of ground truths marked in \<open>seen\<close>.\<close>

definition count_seen :: "bool list \<Rightarrow> nat" where
  "count_seen seen = sum_list (map (\<lambda>b. if b then 1 else 0) seen)"

text \<open>What holds of \<open>(TP, seen)\<close> when the detections \<open>ds\<close> have been processed.\<close>

definition AP_inv ::
  "(box \<Rightarrow> box \<Rightarrow> real) \<Rightarrow> real \<Rightarrow> 'g BBox_scheme list \<Rightarrow> 'd BBox_scheme list \<Rightarrow> nat
     \<Rightarrow> nat list \<times> bool list \<Rightarrow> bool" where
  "AP_inv iou thr gts ds N st \<longleftrightarrow>
     (case st of (TP, seen) \<Rightarrow>
        length TP = N \<and> length seen = length gts
      \<and> (\<forall>i. length ds \<le> i \<and> i < N \<longrightarrow> TP ! i = 0)
      \<and> (\<forall>i<N. TP ! i \<le> 1)
      \<and> (\<forall>i<length ds. TP ! i = 1 \<longleftrightarrow>
            thr < gt_ious iou (ds ! i) gts ! j_max_of iou gts (ds ! i)
          \<and> (\<forall>i'<i. TP ! i' = 1 \<longrightarrow> j_max_of iou gts (ds ! i') \<noteq> j_max_of iou gts (ds ! i)))
      \<and> (\<forall>j<length gts. seen ! j \<longleftrightarrow> (\<exists>i<length ds. TP ! i = 1 \<and> j_max_of iou gts (ds ! i) = j))
      \<and> sum_list TP = count_seen seen)"

text \<open>A simple overlap measure, to run the definitions on concrete boxes.\<close>

definition same_box_iou :: "box \<Rightarrow> box \<Rightarrow> real" where
  "same_box_iou a b = (if a = b then 1 else 0)"

subsection \<open>Notions used to state the property of \<open>mAP\<close>\<close>

text \<open>The value \<open>AP\<close> returns (when it returns).\<close>

definition AP_value ::
  "(box \<Rightarrow> box \<Rightarrow> real) \<Rightarrow> 'd BBox_scheme list \<Rightarrow> 'g BBox_scheme list \<Rightarrow> real \<Rightarrow> real" where
  "AP_value iou dts gts iou_threshold = projr (AP iou dts gts iou_threshold)"

text \<open>The mean of \<open>f\<close> over a finite, non-empty set.\<close>

definition mean_set :: "'a set \<Rightarrow> ('a \<Rightarrow> real) \<Rightarrow> real" where
  "mean_set S f = (\<Sum>x\<in>S. f x) / real (card S)"

text \<open>
  What class \<open>c\<close> of image \<open>i\<close> contributes: 0 when the image has no detection of
  that class, else the \<open>AP\<close> of the image's detections and ground truths of that class.
\<close>

definition class_score ::
  "(box \<Rightarrow> box \<Rightarrow> real) \<Rightarrow> real \<Rightarrow> 'd BBox_scheme list \<Rightarrow> 'g BBox_scheme list \<Rightarrow> int \<Rightarrow> int \<Rightarrow> real" where
  "class_score iou iou_threshold dets gts i c =
     (let ds = filter (\<lambda>d. image_id d = i \<and> category_id d = c) dets;
          gs = filter (\<lambda>g. image_id g = i \<and> category_id g = c) gts
      in if ds = [] then 0 else AP_value iou ds gs iou_threshold)"

section \<open>Coordinate encoding and decoding\<close>

text \<open>
  \<open>coords_to_target\<close> (hutil/detection/__init__.py and horch/detection/two/e2e.py, the
  same arithmetic) for one ground-truth row and one anchor row, both \<open>[cx, cy, w, h]\<close>;
  broadcasting applies it to every anchor row.  Over the reals: a division by 0 and the
  logarithm of a non-positive number (\<open>inf\<close>, \<open>nan\<close> in the floats) have no meaning here.
\<close>

definition coords_to_target :: "box \<Rightarrow> box \<Rightarrow> box" where
  "coords_to_target gt_box anchor =
     (case gt_box of (gx, gy, gw, gh) \<Rightarrow>
      case anchor of (ax, ay, aw, ah) \<Rightarrow>
        ((gx - ax) / aw, (gy - ay) / ah, ln (gw / aw), ln (gh / ah)))"

text \<open>
  \<open>target_to_coords\<close> (e2e.py) updates the rows of \<open>loc_t\<close> in place, row \<open>i\<close> against
  anchor \<open>i\<close>, and returns \<open>loc_t\<close>.
\<close>

definition target_to_coords_row :: "box \<Rightarrow> box \<Rightarrow> box" where
  "target_to_coords_row t anchor =
     (case t of (tx, ty, tw, th) \<Rightarrow>
      case anchor of (ax, ay, aw, ah) \<Rightarrow>
        (tx * aw + ax, ty * ah + ay, exp tw * aw, exp th * ah))"

definition target_to_coords :: "box list \<Rightarrow> box list \<Rightarrow> box list" where
  "target_to_coords loc_t anchors = map (\<lambda>(t, a). target_to_coords_row t a) (zip loc_t anchors)"

section \<open>\<open>MultiBoxLoss.forward\<close>\<close>

text \<open>
  The functions of \<open>torch\<close> and \<open>hutil\<close> that \<open>forward\<close> calls are parameters: the
  smooth L1 loss of two lists of rows under \<open>reduction='sum'\<close>, the loss of one anchor under
  \<open>F.cross_entropy\<close> and under \<open>focal_loss2\<close> (\<open>reduction='sum'\<close> adds them up), and
  \<open>one_hot(cls_t, C=cls_p.size(-1))\<close> as a function of \<open>cls_t\<close> and \<open>cls_p\<close>.
  A target is a class label or, after \<open>one_hot\<close>, a row.
\<close>

datatype target = Label int | OneHot "real list"

record lib =
  smooth_l1_loss :: "box list \<Rightarrow> box list \<Rightarrow> real"
  cross_entropy :: "real list \<Rightarrow> target \<Rightarrow> real"
  focal_loss :: "real list \<Rightarrow> target \<Rightarrow> real"
  one_hot :: "int list \<Rightarrow> real list list \<Rightarrow> real list list"

text \<open>\<open>self.criterion(input, target, reduction='sum')\<close>\<close>

definition criterion_sum :: "lib \<Rightarrow> criterion_fn \<Rightarrow> real list list \<Rightarrow> target list \<Rightarrow> real" where
  "criterion_sum l crit input tgt =
     sum_list (map (\<lambda>(row, t). case crit of
                      F_cross_entropy \<Rightarrow> cross_entropy l row t
                    | focal_loss2 \<Rightarrow> focal_loss l row t) (zip input tgt))"

definition bind_err :: "py_error + 'a \<Rightarrow> ('a \<Rightarrow> py_error + 'b) \<Rightarrow> py_error + 'b" where
  "bind_err m f = (case m of Inl e \<Rightarrow> Inl e | Inr v \<Rightarrow> f v)"

text \<open>
  The tensors of a level are lists of rows, batch and anchor dimensions flattened; masks
  are lists of booleans.  \<open>t[mask]\<close> raises IndexError when the shapes differ.
\<close>

definition index_mask :: "'a list \<Rightarrow> bool list \<Rightarrow> py_error + 'a list" where
  "index_mask t msk =
     (if length msk \<noteq> length t then Inl IndexError
      else Inr (map fst (filter snd (zip t msk))))"

text \<open>\<open>a & b\<close> on masks, with broadcasting of a mask of length 1.\<close>

definition mask_and :: "bool list \<Rightarrow> bool list \<Rightarrow> py_error + bool list" where
  "mask_and a b =
     (if length a = length b then Inr (map (\<lambda>(x, y). x \<and> y) (zip a b))
      else if length a = 1 then Inr (map (\<lambda>y. hd a \<and> y) b)
      else if length b = 1 then Inr (map (\<lambda>x. x \<and> hd b) a)
      else Inl RuntimeError)"

text \<open>
  \<open>-F.log_softmax(cls_p_neg, dim=1)[..., 0]\<close>: for each row the negative log-softmax of
  entry 0, the background class; IndexError when the rows of \<open>cls_p\<close> have no entry.
\<close>

definition neg_log_softmax_0 :: "real list \<Rightarrow> real" where
  "neg_log_softmax_0 row = ln (sum_list (map exp row)) - row ! 0"

definition neg_log_softmax_bg :: "real list list \<Rightarrow> real list list \<Rightarrow> py_error + real list" where
  "neg_log_softmax_bg cls_p cls_p_neg =
     (if \<exists>row \<in> set cls_p. row = [] then Inl IndexError
      else Inr (map neg_log_softmax_0 cls_p_neg))"

text \<open>The values of \<open>torch.topk(xs, k)\<close>: the \<open>k\<close> largest, in descending order.\<close>

definition topk :: "real list \<Rightarrow> nat \<Rightarrow> py_error + real list" where
  "topk xs k = (if k > length xs then Inl RuntimeError else Inr (take k (rev (sort xs))))"

type_synonym level = "box list \<times> real list list \<times> box list \<times> int list \<times> bool list option"

text \<open>The branch \<open>if self.neg_pos_ratio:\<close> (hard negative mining); its value is added to \<open>cls_loss\<close>.\<close>

definition hard_negative_loss ::
  "lib \<Rightarrow> criterion_fn \<Rightarrow> nat \<Rightarrow> bool list \<Rightarrow> nat \<Rightarrow> real list list \<Rightarrow> int list
     \<Rightarrow> bool list option \<Rightarrow> py_error + real" where
  "hard_negative_loss l crit ratio pos num_pos cls_p cls_t ignore =
     bind_err (index_mask cls_p pos) (\<lambda>cls_p_pos.
     bind_err (index_mask cls_t pos) (\<lambda>cls_t_pos.
       let cls_loss_pos = criterion_sum l crit cls_p_pos (map Label cls_t_pos) in
     bind_err (case ignore of
                 None \<Rightarrow> Inr (map Not pos)
               | Some ig \<Rightarrow> mask_and (map Not pos) (map Not ig)) (\<lambda>msk.
     bind_err (index_mask cls_p msk) (\<lambda>cls_p_neg.
     bind_err (neg_log_softmax_bg cls_p cls_p_neg) (\<lambda>cls_loss_neg.
       let num_neg = min (ratio * num_pos) (length cls_loss_neg) in
     bind_err (topk cls_loss_neg num_neg) (\<lambda>top.
       Inr ((cls_loss_pos + sum_list top) / real num_pos)))))))"

text \<open>The branch \<open>elif ignore is not None:\<close>\<close>

definition ignore_loss ::
  "lib \<Rightarrow> criterion_fn \<Rightarrow> bool list \<Rightarrow> nat \<Rightarrow> real list list \<Rightarrow> int list
     \<Rightarrow> bool list \<Rightarrow> py_error + real" where
  "ignore_loss l crit pos num_pos cls_p cls_t ig =
     (let tgt = (if crit = focal_loss2 then map OneHot (one_hot l cls_t cls_p) else map Label cls_t) in
     bind_err (index_mask cls_p pos) (\<lambda>cls_p_pos.
     bind_err (index_mask tgt pos) (\<lambda>tgt_pos.
       let cls_loss_pos = criterion_sum l crit cls_p_pos tgt_pos in
     bind_err (mask_and (map Not pos) (map Not ig)) (\<lambda>msk.
     bind_err (index_mask cls_p msk) (\<lambda>cls_p_neg.
     bind_err (index_mask tgt msk) (\<lambda>tgt_neg.
       let cls_loss_neg = criterion_sum l crit cls_p_neg tgt_neg in
       Inr ((cls_loss_pos + cls_loss_neg) / real num_pos)))))))"

text \<open>
  The last branch.  Its test \<open>self.criterion == F.softmax\<close> is never true: \<open>__init__\<close>
  stores \<open>F.cross_entropy\<close> or \<open>focal_loss2\<close>.
\<close>

definition plain_loss ::
  "lib \<Rightarrow> criterion_fn \<Rightarrow> nat \<Rightarrow> real list list \<Rightarrow> int list \<Rightarrow> py_error + real" where
  "plain_loss l crit num_pos cls_p cls_t =
     (let tgt = (if crit = focal_loss2 then map OneHot (one_hot l cls_t cls_p) else map Label cls_t)
      in Inr (criterion_sum l crit cls_p tgt / real num_pos))"

text \<open>
  The body of the loop over the levels: \<open>None\<close> for \<open>continue\<close>, else what is added to
  \<open>loc_loss\<close> and to \<open>cls_loss\<close>.
\<close>

definition level_loss :: "lib \<Rightarrow> MultiBoxLoss \<Rightarrow> level \<Rightarrow> py_error + (real \<times> real) option" where
  "level_loss l self lv =
     (case lv of (loc_p, cls_p, loc_t, cls_t, ignore) \<Rightarrow>
        let pos = map (\<lambda>c. c \<noteq> 0) cls_t;
            num_pos = length (filter id pos)
        in if num_pos = 0 then Inr None
           else
             bind_err (if length loc_p \<noteq> length pos
                       then Inr (smooth_l1_loss l loc_p loc_t / real num_pos)
                       else bind_err (index_mask loc_p pos) (\<lambda>loc_p_pos.
                            bind_err (index_mask loc_t pos) (\<lambda>loc_t_pos.
                              Inr (smooth_l1_loss l loc_p_pos loc_t_pos / real num_pos))))
               (\<lambda>loc_inc.
             bind_err (case neg_pos_ratio self of
                         Some ratio \<Rightarrow>
                           if ratio \<noteq> 0
                           then hard_negative_loss l (criterion self) ratio pos num_pos cls_p cls_t ignore
                           else (case ignore of
                                   Some ig \<Rightarrow> ignore_loss l (criterion self) pos num_pos cls_p cls_t ig
                                 | None \<Rightarrow> plain_loss l (criterion self) num_pos cls_p cls_t)
                       | None \<Rightarrow>
                           (case ignore of
                              Some ig \<Rightarrow> ignore_loss l (criterion self) pos num_pos cls_p cls_t ig
                            | None \<Rightarrow> plain_loss l (criterion self) num_pos cls_p cls_t))
               (\<lambda>cls_inc. Inr (Some (loc_inc, cls_inc)))))"

text \<open>
  \<open>loc_loss\<close> and \<open>cls_loss\<close> start as the Python integer 0 and become tensors when a
  level adds to them; \<open>.item()\<close> exists on tensors only.
\<close>

datatype pynum = PyInt int | Tensor real

fun add_tensor :: "pynum \<Rightarrow> real \<Rightarrow> pynum" where
  "add_tensor (PyInt n) x = Tensor (real_of_int n + x)"
| "add_tensor (Tensor y) x = Tensor (y + x)"

fun pynum_add :: "pynum \<Rightarrow> pynum \<Rightarrow> pynum" where
  "pynum_add (PyInt m) (PyInt n) = PyInt (m + n)"
| "pynum_add (PyInt m) (Tensor y) = Tensor (real_of_int m + y)"
| "pynum_add (Tensor x) (PyInt n) = Tensor (x + real_of_int n)"
| "pynum_add (Tensor x) (Tensor y) = Tensor (x + y)"

fun item :: "pynum \<Rightarrow> py_error + real" where
  "item (PyInt n) = Inl AttributeError"
| "item (Tensor x) = Inr x"

fun forward_loop ::
  "lib \<Rightarrow> MultiBoxLoss \<Rightarrow> level list \<Rightarrow> pynum \<times> pynum \<Rightarrow> py_error + (pynum \<times> pynum)" where
  "forward_loop l self [] acc = Inr acc"
| "forward_loop l self (lv # lvs) (loc_loss, cls_loss) =
     (case level_loss l self lv of
        Inl e \<Rightarrow> Inl e
      | Inr None \<Rightarrow> forward_loop l self lvs (loc_loss, cls_loss)
      | Inr (Some (loc_inc, cls_inc)) \<Rightarrow>
          forward_loop l self lvs (add_tensor loc_loss loc_inc, add_tensor cls_loss cls_inc))"

text \<open>
  \<open>forward\<close>; the arguments are lists with one element per level (a single tensor stands
  for one level), \<open>rnd\<close> is the value \<open>random.random()\<close> returns, a number in \<open>[0, 1)\<close>.
  \<open>zip\<close> stops at the shortest list.
\<close>

definition forward ::
  "lib \<Rightarrow> MultiBoxLoss \<Rightarrow> real \<Rightarrow> box list list \<Rightarrow> real list list list \<Rightarrow> box list list
     \<Rightarrow> int list list \<Rightarrow> bool list option list option \<Rightarrow> py_error + pynum" where
  "forward l self rnd loc_preds cls_preds loc_targets cls_targets ignores =
     (let ignores' = (case ignores of
                        None \<Rightarrow> replicate (length loc_preds) None
                      | Some igs \<Rightarrow> igs);
          levels = zip loc_preds (zip cls_preds (zip loc_targets (zip cls_targets ignores')))
      in case forward_loop l self levels (PyInt 0, PyInt 0) of
           Inl e \<Rightarrow> Inl e
         | Inr (loc_loss, cls_loss) \<Rightarrow>
             let loss = pynum_add cls_loss loc_loss in
             if rnd < p_print self then
               bind_err (item loc_loss) (\<lambda>_. bind_err (item cls_loss) (\<lambda>_. Inr loss))
             else Inr loss)"

text \<open>
  The library functions over the reals, to run \<open>forward\<close> on concrete inputs: the smooth
  L1 loss (\<open>x\<^sup>2 / 2\<close> for \<open>|x| < 1\<close>, else \<open>|x| - 1/2\<close>) and the cross entropy of a row of
  logits against a label.  Focal loss and \<open>one_hot\<close> are stand-ins.
\<close>

definition smooth_l1 :: "real \<Rightarrow> real" where
  "smooth_l1 x = (if \<bar>x\<bar> < 1 then x * x / 2 else \<bar>x\<bar> - 1 / 2)"

definition smooth_l1_sum :: "box list \<Rightarrow> box list \<Rightarrow> real" where
  "smooth_l1_sum input tgt =
     sum_list (map (\<lambda>((a, b, c, d), (a', b', c', d')).
                 smooth_l1 (a - a') + smooth_l1 (b - b') + smooth_l1 (c - c') + smooth_l1 (d - d'))
               (zip input tgt))"

fun cross_entropy_row :: "real list \<Rightarrow> target \<Rightarrow> real" where
  "cross_entropy_row row (Label c) = ln (sum_list (map exp row)) - row ! nat c"
| "cross_entropy_row row (OneHot t) = ln (sum_list (map exp row)) * sum_list t - sum_list (map (\<lambda>(x, y). x * y) (zip row t))"

definition torch_lib :: lib where
  "torch_lib = \<lparr>smooth_l1_loss = smooth_l1_sum, cross_entropy = cross_entropy_row,
                focal_loss = cross_entropy_row, one_hot = (\<lambda>cls_t cls_p. cls_p)\<rparr>"

subsection \<open>Notions used to state the property of hard negative mining\<close>

text \<open>The positive anchors of a level (\<open>cls_t != 0\<close>), by index.\<close>

definition positives :: "int list \<Rightarrow> nat list" where
  "positives cls_t = filter (\<lambda>j. cls_t ! j \<noteq> 0) [0..<length cls_t]"

text \<open>The anchors that are neither positive nor ignored.\<close>

definition candidates :: "int list \<Rightarrow> bool list option \<Rightarrow> nat list" where
  "candidates cls_t ignore =
     filter (\<lambda>j. cls_t ! j = 0 \<and> \<not> (case ignore of None \<Rightarrow> False | Some ig \<Rightarrow> ig ! j))
       [0..<length cls_t]"

text \<open>Their background negative-log-softmax values.\<close>

definition candidate_losses :: "real list list \<Rightarrow> int list \<Rightarrow> bool list option \<Rightarrow> real list" where
  "candidate_losses cls_p cls_t ignore =
     map (\<lambda>j. neg_log_softmax_0 (cls_p ! j)) (candidates cls_t ignore)"

text \<open>The criterion over the positive anchors, under \<open>reduction='sum'\<close>.\<close>

definition positive_loss :: "lib \<Rightarrow> criterion_fn \<Rightarrow> real list list \<Rightarrow> int list \<Rightarrow> real" where
  "positive_loss l crit cls_p cls_t =
     criterion_sum l crit (map (nth cls_p) (positives cls_t))
       (map (\<lambda>j. Label (cls_t ! j)) (positives cls_t))"

section \<open>\<open>MultiLevelAnchorMatching\<close>\<close>

text \<open>
  Conversions of \<open>BBox\<close> between \<open>LTWH\<close> (\<open>[xmin, ymin, width, height]\<close>), \<open>XYWH\<close>
  (\<open>[cx, cy, width, height]\<close>) and \<open>LTRB\<close> (\<open>[xmin, ymin, xmax, ymax]\<close>).
  Modelled from the spec: \<open>transform_bbox\<close> and \<open>BBox.convert\<close> (hutil/detection/bbox.py,
  horch/detection/bbox.py) are not among the sources; the formats are those named in the
  docstring of \<open>MultiLevelAnchorMatching\<close> and in \<open>nms_cpu\<close>.
\<close>

definition ltwh_to_xywh :: "box \<Rightarrow> box" where
  "ltwh_to_xywh b = (case b of (l, t, w, h) \<Rightarrow> (l + w / 2, t + h / 2, w, h))"

definition xywh_to_ltrb :: "box \<Rightarrow> box" where
  "xywh_to_ltrb b = (case b of (x, y, w, h) \<Rightarrow> (x - w / 2, y - h / 2, x + w / 2, y + h / 2))"

text \<open>
  The IoU of two boxes, for concrete runs: the area of the intersection over the area
  of the union, for \<open>LTRB\<close> boxes and for \<open>XYWH\<close> boxes.
\<close>

definition iou_ltrb :: "box \<Rightarrow> box \<Rightarrow> real" where
  "iou_ltrb a b =
     (case a of (l1, t1, r1, b1) \<Rightarrow> case b of (l2, t2, r2, b2) \<Rightarrow>
        let inter = max 0 (min r1 r2 - max l1 l2) * max 0 (min b1 b2 - max t1 t2);
            union = (r1 - l1) * (b1 - t1) + (r2 - l2) * (b2 - t2) - inter
        in inter / union)"

definition iou_xywh :: "box \<Rightarrow> box \<Rightarrow> real" where
  "iou_xywh a b = iou_ltrb (xywh_to_ltrb a) (xywh_to_ltrb b)"

text \<open>
  \<open>t.max(dim)\<close> of a tensor of floats: the maximum and the index of its first
  occurrence; RuntimeError when the dimension is empty.
\<close>

definition torch_max :: "real list \<Rightarrow> py_error + (real \<times> nat)" where
  "torch_max xs =
     (case py_max snd (enumerate 0 xs) of
        Inl e \<Rightarrow> Inl RuntimeError
      | Inr (i, v) \<Rightarrow> Inr (v, i))"

text \<open>\<open>t[mask]\<close>, \<open>t[mask] = values\<close> and \<open>t[mask] = value\<close> for a mask as long as \<open>t\<close>.\<close>

definition select_mask :: "'a list \<Rightarrow> bool list \<Rightarrow> 'a list" where
  "select_mask t msk = map fst (filter snd (zip t msk))"

fun assign_mask :: "'a list \<Rightarrow> bool list \<Rightarrow> 'a list \<Rightarrow> 'a list" where
  "assign_mask (x # xs) (m # ms) vs =
     (if m then (case vs of v # vs' \<Rightarrow> v # assign_mask xs ms vs' | [] \<Rightarrow> x # xs)
      else x # assign_mask xs ms vs)"
| "assign_mask xs ms vs = xs"

definition fill_mask :: "'a list \<Rightarrow> bool list \<Rightarrow> 'a \<Rightarrow> 'a list" where
  "fill_mask t msk v = map (\<lambda>(x, m). if m then v else x) (zip t msk)"

text \<open>\<open>if x:\<close> for a threshold that is \<open>None\<close> or a float.\<close>

definition truthy :: "real option \<Rightarrow> bool" where
  "truthy x = (case x of None \<Rightarrow> False | Some v \<Rightarrow> v \<noteq> 0)"

text \<open>
  The object: a level of \<open>anchors_of_level\<close> is a tensor of shape \<open>(lx, ly, #anchors, 4)\<close>,
  here \<open>(lx, ly, rows)\<close> with the rows of \<open>anchors.view(-1, 4)\<close>.  \<open>iou_1m\<close>
  (hutil/detection/iou.py, not among the sources) is the parameter \<open>iou\<close>, the IoU of
  a box and one anchor.  \<open>debug\<close> only prints and is left out.
\<close>

record 'ann MultiLevelAnchorMatching =
  anchors_of_level :: "(nat \<times> nat \<times> box list) list"
  max_iou :: bool
  pos_thresh :: "real option"
  neg_thresh :: "real option"
  get_label :: "'ann \<Rightarrow> int"
  get_bbox :: "'ann \<Rightarrow> box"
  coords_to_target_fn :: "box \<Rightarrow> box \<Rightarrow> nat \<times> nat \<Rightarrow> box"

text \<open>The targets of one level: \<open>(loc_t, cls_t, neg)\<close>.\<close>

type_synonym level_targets = "box list \<times> int list \<times> bool list option"

text \<open>The lists built by the first loop of \<open>__call__\<close>.\<close>

definition init_targets :: "(nat \<times> nat \<times> box list) list \<Rightarrow> real option \<Rightarrow> level_targets list" where
  "init_targets levels neg_th =
     map (\<lambda>(lx, ly, anchors).
            (replicate (length anchors) (0, 0, 0, 0),
             replicate (length anchors) 0,
             if truthy neg_th then Some (replicate (length anchors) True) else None)) levels"

text \<open>
  The body of the inner loop, for one level: the pair \<open>ious.max(dim=0)\<close> that is appended
  to \<open>max_ious\<close>, and the level's targets after the two updates.
\<close>

definition match_level ::
  "(box \<Rightarrow> box \<Rightarrow> real) \<Rightarrow> 'ann MultiLevelAnchorMatching \<Rightarrow> int \<Rightarrow> box
     \<Rightarrow> (nat \<times> nat \<times> box list) \<times> level_targets
     \<Rightarrow> py_error + ((real \<times> nat) \<times> level_targets)" where
  "match_level iou self label gt_box lv =
     (case lv of ((lx, ly, anchors), (loc_t, cls_t, neg)) \<Rightarrow>
        let ious = map (iou gt_box) anchors in
        bind_err (torch_max ious) (\<lambda>mx.
          let (loc_t', cls_t') =
                (if truthy (pos_thresh self) then
                   let pos = map (\<lambda>v. v > the (pos_thresh self)) ious in
                   if \<exists>b\<in>set pos. b then
                     (assign_mask loc_t pos
                        (map (\<lambda>a. coords_to_target_fn self gt_box a (lx, ly)) (select_mask anchors pos)),
                      fill_mask cls_t pos label)
                   else (loc_t, cls_t)
                 else (loc_t, cls_t));
              neg' = (if truthy (neg_thresh self) then
                        map_option (\<lambda>n. map (\<lambda>(b, v). b \<and> v < the (neg_thresh self)) (zip n ious)) neg
                      else neg)
          in Inr (mx, (loc_t', cls_t', neg'))))"

fun match_levels ::
  "(box \<Rightarrow> box \<Rightarrow> real) \<Rightarrow> 'ann MultiLevelAnchorMatching \<Rightarrow> int \<Rightarrow> box
     \<Rightarrow> ((nat \<times> nat \<times> box list) \<times> level_targets) list
     \<Rightarrow> py_error + ((real \<times> nat) list \<times> level_targets list)" where
  "match_levels iou self label gt_box [] = Inr ([], [])"
| "match_levels iou self label gt_box (lv # lvs) =
     bind_err (match_level iou self label gt_box lv) (\<lambda>(mx, tg).
     bind_err (match_levels iou self label gt_box lvs) (\<lambda>(max_ious, tgs).
       Inr (mx # max_ious, tg # tgs)))"

text \<open>
  The body of \<open>for ann in anns\<close>: the inner loop, then the assignment of the anchor of
  maximal IoU, \<open>max(enumerate(max_ious), key=lambda x: x[1][0])\<close>.
\<close>

definition match_ann ::
  "(box \<Rightarrow> box \<Rightarrow> real) \<Rightarrow> 'ann MultiLevelAnchorMatching \<Rightarrow> 'ann \<Rightarrow> level_targets list
     \<Rightarrow> py_error + level_targets list" where
  "match_ann iou self ann targets =
     (let label = get_label self ann;
          gt_box = ltwh_to_xywh (get_bbox self ann)
      in bind_err (match_levels iou self label gt_box (zip (anchors_of_level self) targets))
           (\<lambda>(max_ious, targets').
      bind_err (py_max (\<lambda>x. fst (snd x)) (enumerate 0 max_ious)) (\<lambda>(f_i, (mx, ind)).
        case (anchors_of_level self ! f_i, targets' ! f_i) of
          ((lx, ly, anchors), (loc_t, cls_t, neg)) \<Rightarrow>
            Inr (targets'[f_i := (loc_t[ind := coords_to_target_fn self gt_box (anchors ! ind) (lx, ly)],
                                  cls_t[ind := label], neg)]))))"

fun match_anns ::
  "(box \<Rightarrow> box \<Rightarrow> real) \<Rightarrow> 'ann MultiLevelAnchorMatching \<Rightarrow> 'ann list \<Rightarrow> level_targets list
     \<Rightarrow> py_error + level_targets list" where
  "match_anns iou self [] targets = Inr targets"
| "match_anns iou self (ann # anns) targets =
     bind_err (match_ann iou self ann targets) (match_anns iou self anns)"

text \<open>The targets when the loop over \<open>anns\<close> has ended.\<close>

definition targets_after ::
  "(box \<Rightarrow> box \<Rightarrow> real) \<Rightarrow> 'ann MultiLevelAnchorMatching \<Rightarrow> 'ann list \<Rightarrow> py_error + level_targets list" where
  "targets_after iou self anns =
     match_anns iou self anns (init_targets (anchors_of_level self) (neg_thresh self))"

text \<open>
  What \<open>__call__\<close> returns for the levels: a list with one tensor per level, or the
  tensor itself when there is a single level (\<open>if len(flat_anchors) == 1\<close>).
\<close>

datatype 'a per_level = Single 'a | Levels "'a list"

definition per_level :: "bool \<Rightarrow> 'a list \<Rightarrow> 'a per_level" where
  "per_level single xs = (if single then Single (xs ! 0) else Levels xs)"

text \<open>
  \<open>__call__\<close>: the image and \<open>(loc_targets, cls_targets, ignores)\<close>, the last one
  (\<open>[~neg for neg in negs]\<close>) only when \<open>neg_thresh\<close> is set.
\<close>

definition MultiLevelAnchorMatching_call ::
  "(box \<Rightarrow> box \<Rightarrow> real) \<Rightarrow> 'ann MultiLevelAnchorMatching \<Rightarrow> 'img \<Rightarrow> 'ann list
     \<Rightarrow> py_error + ('img \<times> box list per_level \<times> int list per_level \<times> bool list per_level option)" where
  "MultiLevelAnchorMatching_call iou self img anns =
     bind_err (targets_after iou self anns) (\<lambda>targets.
       let single = (length (anchors_of_level self) = 1)
       in Inr (img, per_level single (map fst targets),
               per_level single (map (\<lambda>t. fst (snd t)) targets),
               if truthy (neg_thresh self)
               then Some (per_level single (map (\<lambda>t. map Not (the (snd (snd t)))) targets))
               else None))"

subsection \<open>Notions used to state the property of \<open>MultiLevelAnchorMatching\<close>\<close>

text \<open>The rows and the pair \<open>(lx, ly)\<close> of a level of anchors.\<close>

definition flat_anchors :: "nat \<times> nat \<times> box list \<Rightarrow> box list" where
  "flat_anchors lvl = snd (snd lvl)"

definition location :: "nat \<times> nat \<times> box list \<Rightarrow> nat \<times> nat" where
  "location lvl = (fst lvl, fst (snd lvl))"

text \<open>The targets of a level have one row per anchor.\<close>

definition level_ok :: "nat \<times> nat \<times> box list \<Rightarrow> level_targets \<Rightarrow> bool" where
  "level_ok lvl tg \<longleftrightarrow>
     length (fst tg) = length (flat_anchors lvl) \<and> length (fst (snd tg)) = length (flat_anchors lvl)"

text \<open>The tensor of level \<open>f\<close> in what \<open>__call__\<close> returns.\<close>

fun of_level :: "'a per_level \<Rightarrow> nat \<Rightarrow> 'a" where
  "of_level (Single x) f = x"
| "of_level (Levels xs) f = xs ! f"

text \<open>The IoU of the ground-truth box of \<open>ann\<close> with anchor \<open>k\<close> of level \<open>f\<close>.\<close>

definition anchor_iou ::
  "(box \<Rightarrow> box \<Rightarrow> real) \<Rightarrow> 'ann MultiLevelAnchorMatching \<Rightarrow> 'ann \<Rightarrow> nat \<Rightarrow> nat \<Rightarrow> real" where
  "anchor_iou iou self ann f k =
     iou (ltwh_to_xywh (get_bbox self ann)) (flat_anchors (anchors_of_level self ! f) ! k)"

text \<open>
  Anchor \<open>ind\<close> of level \<open>f_i\<close> is the anchor of maximal IoU for \<open>ann\<close>: its IoU with
  the ground-truth box is maximal over all anchors of all levels, and it is the first
  such anchor (earliest level, then lowest index).
\<close>

definition is_max_iou_anchor ::
  "(box \<Rightarrow> box \<Rightarrow> real) \<Rightarrow> 'ann MultiLevelAnchorMatching \<Rightarrow> 'ann \<Rightarrow> nat \<Rightarrow> nat \<Rightarrow> bool" where
  "is_max_iou_anchor iou self ann f_i ind \<longleftrightarrow>
     (let levels = anchors_of_level self
      in f_i < length levels \<and> ind < length (flat_anchors (levels ! f_i))
       \<and> (\<forall>f k. f < length levels \<and> k < length (flat_anchors (levels ! f))
              \<longrightarrow> anchor_iou iou self ann f k \<le> anchor_iou iou self ann f_i ind)
       \<and> (\<forall>f k. f < length levels \<and> k < length (flat_anchors (levels ! f))
                \<and> anchor_iou iou self ann f k = anchor_iou iou self ann f_i ind
              \<longrightarrow> f_i < f \<or> (f_i = f \<and> ind \<le> k)))"

text \<open>
  Row \<open>k\<close> of the targets \<open>loc_t\<close> and \<open>cls_t\<close> of level \<open>f\<close> holds the label of
  \<open>ann\<close> and the encoding of its ground-truth box against the anchor.
\<close>

definition holds_targets_of ::
  "'ann MultiLevelAnchorMatching \<Rightarrow> 'ann \<Rightarrow> box list \<Rightarrow> int list \<Rightarrow> nat \<Rightarrow> nat \<Rightarrow> bool" where
  "holds_targets_of self ann loc_t cls_t f k \<longleftrightarrow>
     cls_t ! k = get_label self ann
   \<and> loc_t ! k = coords_to_target_fn self (ltwh_to_xywh (get_bbox self ann))
                   (flat_anchors (anchors_of_level self ! f) ! k)
                   (location (anchors_of_level self ! f))"

text \<open>
  Processing \<open>ann\<close> writes row \<open>k\<close> of level \<open>f\<close>: the anchor is the anchor of maximal
  IoU for \<open>ann\<close>, or \<open>pos_thresh\<close> is set and the IoU exceeds it.
\<close>

definition writes_anchor ::
  "(box \<Rightarrow> box \<Rightarrow> real) \<Rightarrow> 'ann MultiLevelAnchorMatching \<Rightarrow> 'ann \<Rightarrow> nat \<Rightarrow> nat \<Rightarrow> bool" where
  "writes_anchor iou self ann f k \<longleftrightarrow>
     is_max_iou_anchor iou self ann f k
   \<or> (truthy (pos_thresh self) \<and> anchor_iou iou self ann f k > the (pos_thresh self))"

text \<open>
  A matcher for concrete runs, on the unit square: one anchor on the first level, the
  whole square, and two on the second, the whole square again and its central quarter.
  Annotations are pairs of label and \<open>[xmin, ymin, width, height]\<close>.
\<close>

definition example_matching :: "(int \<times> box) MultiLevelAnchorMatching" where
  "example_matching =
     \<lparr>anchors_of_level = [(1, 1, [(1/2, 1/2, 1, 1)]),
                           (1, 1, [(1/2, 1/2, 1, 1), (1/2, 1/2, 1/2, 1/2)])],
      max_iou = True, pos_thresh = Some (1/2), neg_thresh = None,
      get_label = fst, get_bbox = snd,
      coords_to_target_fn = (\<lambda>gt_box anchor loc. coords_to_target gt_box anchor)\<rparr>"

text \<open>
  Two annotations with different anchors of maximal IoU: the left half of the square
  (IoU \<open>1/2\<close> with the whole square, which is not above \<open>pos_thresh\<close>, on both levels)
  and a box inside the central quarter.
\<close>

definition separate_anns :: "(int \<times> box) list" where
  "separate_anns = [(7, (0, 0, 1/2, 1)), (9, (1/4, 1/4, 1/2, 2/5))]"

text \<open>
  Two annotations with the same anchor of maximal IoU: the whole square and its lower
  nine tenths.
\<close>

definition overlapping_anns :: "(int \<times> box) list" where
  "overlapping_anns = [(4, (0, 0, 1, 1)), (9, (0, 0, 1, 9/10))]"

section \<open>\<open>match_anchors\<close> and \<open>match_anchors2\<close> (horch/detection/two/e2e.py)\<close>

text \<open>
  \<open>iou_mn\<close> (horch/detection/iou.py) is not among the sources: the IoU of two \<open>LTRB\<close>
  boxes is the parameter \<open>iou\<close>, and \<open>iou_mn\<close> is the matrix of the IoUs of every box
  with every anchor.  An annotation is read through \<open>bbox\<close> (\<open>ann['bbox']\<close>) and
  \<open>get_label\<close>, here \<open>get_lbl\<close>; the thresholds are \<open>pos_thr\<close> and \<open>neg_thr\<close>.
\<close>

definition iou_mn :: "(box \<Rightarrow> box \<Rightarrow> real) \<Rightarrow> box list \<Rightarrow> box list \<Rightarrow> real list list" where
  "iou_mn iou boxes anchors = map (\<lambda>b. map (iou b) anchors) boxes"

text \<open>
  \<open>t[indices] = values\<close> for a tensor of indices: row by row; where an index repeats,
  the last row written stays.
\<close>

fun index_put :: "'a list \<Rightarrow> nat list \<Rightarrow> 'a list \<Rightarrow> 'a list" where
  "index_put t (i # is) (v # vs) = index_put (t[i := v]) is vs"
| "index_put t is vs = t"

text \<open>\<open>ious.max(dim=1)\<close>: for every annotation the maximum over the anchors and its index.\<close>

definition max_dim1 :: "real list list \<Rightarrow> py_error + (real \<times> nat) list" where
  "max_dim1 ious = collect (map torch_max ious)"

text \<open>\<open>(cls_t == 0) & ((ious >= neg_thresh).sum(dim=0) != 0)\<close>\<close>

definition ignore_mask :: "int list \<Rightarrow> real list list \<Rightarrow> real \<Rightarrow> bool list" where
  "ignore_mask cls_t ious neg_th =
     map (\<lambda>(j, c). c = 0 \<and> (\<exists>row\<in>set ious. row ! j \<ge> neg_th)) (enumerate 0 cls_t)"

text \<open>The loop \<open>for ipos, bbox, label in zip(pos, bboxes, labels)\<close> of \<open>match_anchors\<close>.\<close>

fun assign_positives ::
  "box list \<Rightarrow> (bool list \<times> box \<times> int) list \<Rightarrow> box list \<times> int list \<Rightarrow> box list \<times> int list" where
  "assign_positives a_xywh [] st = st"
| "assign_positives a_xywh ((ipos, gt_box, label) # rest) (loc_t, cls_t) =
     assign_positives a_xywh rest
       (assign_mask loc_t ipos (map (coords_to_target gt_box) (select_mask a_xywh ipos)),
        fill_mask cls_t ipos label)"

text \<open>
  The assignments after \<open>ious.max(dim=1)\<close>, the same in both functions once the values
  are computed, and the optional ignore mask.
\<close>

definition assign_max ::
  "nat list \<Rightarrow> box list \<Rightarrow> int list \<Rightarrow> real list list \<Rightarrow> real option \<Rightarrow> box list \<times> int list
     \<Rightarrow> box list \<times> int list \<times> bool list option" where
  "assign_max indices vals labels ious neg_thr st =
     (case st of (loc_t, cls_t) \<Rightarrow>
        let loc_t' = index_put loc_t indices vals;
            cls_t' = index_put cls_t indices labels
        in (loc_t', cls_t',
            if truthy neg_thr then Some (ignore_mask cls_t' ious (the neg_thr)) else None))"

text \<open>
  \<open>match_anchors\<close>.  The mask \<open>ipos\<close> has one entry per row of \<open>a_ltrb\<close>; indexing
  \<open>a_xywh\<close> with it raises IndexError when \<open>a_ltrb\<close> and \<open>a_xywh\<close> differ in length.
\<close>

definition match_anchors ::
  "(box \<Rightarrow> box \<Rightarrow> real) \<Rightarrow> 'a BBox_scheme list \<Rightarrow> box list \<Rightarrow> box list \<Rightarrow> real \<Rightarrow> real option
     \<Rightarrow> ('a BBox_scheme \<Rightarrow> int) \<Rightarrow> py_error + (box list \<times> int list \<times> bool list option)" where
  "match_anchors iou anns a_xywh a_ltrb pos_thr neg_thr get_lbl =
     (let num_anchors = length a_xywh;
          loc_t = replicate num_anchors (0, 0, 0, 0);
          cls_t = replicate num_anchors 0
      in if anns = [] then
           Inr (loc_t, cls_t, if truthy neg_thr then Some (replicate num_anchors False) else None)
         else
           let bboxes = map (\<lambda>ann. ltwh_to_xywh (bbox ann)) anns;
               labels = map get_lbl anns;
               bboxes_ltrb = map xywh_to_ltrb bboxes;
               ious = iou_mn iou bboxes_ltrb a_ltrb;
               pos = map (map (\<lambda>v. v > pos_thr)) ious
           in if length a_ltrb \<noteq> num_anchors then Inl IndexError
              else
                let st = assign_positives a_xywh (zip pos (zip bboxes labels)) (loc_t, cls_t) in
                bind_err (max_dim1 ious) (\<lambda>mx.
                  let indices = map snd mx;
                      vals = map (\<lambda>(gt_box, i). coords_to_target gt_box (a_xywh ! i)) (zip bboxes indices)
                  in Inr (assign_max indices vals labels ious neg_thr st)))"

text \<open>
  \<open>select\<close> picks one entry per column or per row of a matrix of rows.
  Modelled from the spec: \<open>select\<close> (horch/common.py) is not among the sources; by its
  use in \<open>match_anchors2\<close>, \<open>select(t, 0, indices)[j] = t[indices[j], j]\<close> and
  \<open>select(t, 1, indices)[i] = t[i, indices[i]]\<close>, and an index outside the tensor is
  taken to raise IndexError, as indexing a tensor does.
\<close>

definition select0 :: "'a list list \<Rightarrow> nat list \<Rightarrow> py_error + 'a list" where
  "select0 t indices =
     (if list_all (\<lambda>(j, i). i < length t \<and> j < length (t ! i)) (enumerate 0 indices)
      then Inr (map (\<lambda>(j, i). t ! i ! j) (enumerate 0 indices))
      else Inl IndexError)"

definition select1 :: "'a list list \<Rightarrow> nat list \<Rightarrow> py_error + 'a list" where
  "select1 t indices =
     (if list_all (\<lambda>(i, j). i < length t \<and> j < length (t ! i)) (enumerate 0 indices)
      then Inr (map (\<lambda>(i, j). t ! i ! j) (enumerate 0 indices))
      else Inl IndexError)"

text \<open>\<open>coords_to_target2\<close>: every box against every anchor.\<close>

definition coords_to_target2 :: "box list \<Rightarrow> box list \<Rightarrow> box list list" where
  "coords_to_target2 bboxes anchors = map (\<lambda>b. map (coords_to_target b) anchors) bboxes"

text \<open>
  \<open>(pos.long() * labels[:, None]).max(dim=0)\<close>, for anchor \<open>j\<close>: the maximum over
  the annotations of the label where the annotation is positive and 0 elsewhere, and the
  index of its first occurrence.
\<close>

definition max_dim0_at :: "bool list list \<Rightarrow> int list \<Rightarrow> nat \<Rightarrow> py_error + (int \<times> nat)" where
  "max_dim0_at pos labels j =
     (let col = map (\<lambda>(ipos, label). (if ipos ! j then 1 else 0) * label) (zip pos labels)
      in case py_max (\<lambda>x. real_of_int (snd x)) (enumerate 0 col) of
           Inr (i, v) \<Rightarrow> Inr (v, i)
         | Inl e \<Rightarrow> Inl RuntimeError)"

definition max_dim0 :: "bool list list \<Rightarrow> int list \<Rightarrow> nat \<Rightarrow> py_error + (int \<times> nat) list" where
  "max_dim0 pos labels num_cols = collect (map (max_dim0_at pos labels) [0..<num_cols])"

text \<open>
  \<open>match_anchors2\<close>.  \<open>cls_t\<close> and \<open>indices\<close> have one entry per row of \<open>a_ltrb\<close>,
  \<open>loc_t_all\<close> one row per annotation and one column per row of \<open>a_xywh\<close>.
\<close>

definition match_anchors2 ::
  "(box \<Rightarrow> box \<Rightarrow> real) \<Rightarrow> 'a BBox_scheme list \<Rightarrow> box list \<Rightarrow> box list \<Rightarrow> real \<Rightarrow> real option
     \<Rightarrow> ('a BBox_scheme \<Rightarrow> int) \<Rightarrow> py_error + (box list \<times> int list \<times> bool list option)" where
  "match_anchors2 iou anns a_xywh a_ltrb pos_thr neg_thr get_lbl =
     (let num_anchors = length a_xywh
      in if anns = [] then
           Inr (replicate num_anchors (0, 0, 0, 0), replicate num_anchors 0,
                if truthy neg_thr then Some (replicate num_anchors False) else None)
         else
           let bboxes = map (\<lambda>ann. ltwh_to_xywh (bbox ann)) anns;
               labels = map get_lbl anns;
               bboxes_ltrb = map xywh_to_ltrb bboxes;
               ious = iou_mn iou bboxes_ltrb a_ltrb;
               pos = map (map (\<lambda>v. v > pos_thr)) ious
           in bind_err (max_dim0 pos labels (length a_ltrb)) (\<lambda>mx0.
                let cls_t = map fst mx0;
                    indices = map snd mx0;
                    loc_t_all = coords_to_target2 bboxes a_xywh
                in bind_err (select0 loc_t_all indices) (\<lambda>loc_t.
                   bind_err (max_dim1 ious) (\<lambda>mx.
                     let max_indices = map snd mx
                     in bind_err (select1 loc_t_all max_indices) (\<lambda>vals.
                          Inr (assign_max max_indices vals labels ious neg_thr (loc_t, cls_t)))))))"

text \<open>
  \<open>MatchAnchors\<close> sets \<open>get_label\<close> to \<open>lambda x: 1\<close>, and its \<open>__call__\<close> picks
  \<open>match_anchors\<close> when the anchors are on the CPU and \<open>match_anchors2\<close> otherwise
  (\<open>match_func\<close>).  The loop of \<open>__call__\<close> over the batch and its concatenations are
  not modelled.
\<close>

definition MatchAnchors_get_label :: "'a BBox_scheme \<Rightarrow> int" where
  "MatchAnchors_get_label x = 1"

definition match_func ::
  "bool \<Rightarrow> (box \<Rightarrow> box \<Rightarrow> real) \<Rightarrow> 'a BBox_scheme list \<Rightarrow> box list \<Rightarrow> box list \<Rightarrow> real \<Rightarrow> real option
     \<Rightarrow> ('a BBox_scheme \<Rightarrow> int) \<Rightarrow> py_error + (box list \<times> int list \<times> bool list option)" where
  "match_func is_cpu = (if is_cpu then match_anchors else match_anchors2)"

text \<open>
  For concrete runs: two overlapping boxes of different categories, and four anchors.
  The first anchor is the first box, the second anchor the second box, the third lies
  between them and overlaps both boxes with an IoU of \<open>3/5\<close>, the fourth is far from both.
\<close>

definition example_anns :: "BBox list" where
  "example_anns =
     [\<lparr>image_id = 0, category_id = 5, bbox = (0, 0, 4, 4)\<rparr>,
      \<lparr>image_id = 0, category_id = 2, bbox = (2, 0, 4, 4)\<rparr>]"

definition example_a_xywh :: "box list" where
  "example_a_xywh = [(2, 2, 4, 4), (4, 2, 4, 4), (3, 2, 4, 4), (12, 12, 4, 4)]"

definition example_a_ltrb :: "box list" where
  "example_a_ltrb = map xywh_to_ltrb example_a_xywh"

section \<open>Results\<close>

subsection \<open>\<open>get_locations\<close>\<close>

lemma locations_loop_eq:
  "locations_loop n lx ly acc =
     acc @ map (\<lambda>i. ((halve ^^ i) lx, (halve ^^ i) ly)) [1..<Suc n]"
proof (induction n arbitrary: lx ly acc)
  case 0
  show ?case by simp
next
  case (Suc n)
  have "map (\<lambda>i. ((halve ^^ i) lx, (halve ^^ i) ly)) [1..<Suc (Suc n)] =
        (halve lx, halve ly) # map (\<lambda>i. ((halve ^^ i) (halve lx), (halve ^^ i) (halve ly))) [1..<Suc n]"
  proof -
    have "[1..<Suc (Suc n)] = 1 # map Suc [1..<Suc n]"
      by (metis One_nat_def map_Suc_upt upt_conv_Cons zero_less_Suc Suc_less_eq)
    then show ?thesis
      by (simp add: funpow_swap1 comp_def del: upt_Suc)
  qed
  with Suc.IH [of "halve lx" "halve ly" "acc @ [(halve lx, halve ly)]"] show ?case
    by (simp add: Let_def del: upt_Suc)
qed

lemma locations_loop_init:
  "locations_loop n lx ly [(lx, ly)] =
     map (\<lambda>i. ((halve ^^ i) lx, (halve ^^ i) ly)) [0..<Suc n]"
proof -
  have "[0..<Suc n] = 0 # [1..<Suc n]"
    by (simp add: upt_conv_Cons del: upt_Suc)
  then show ?thesis
    by (simp add: locations_loop_eq del: upt_Suc)
qed

text \<open>
  C8.  For a non-empty \<open>strides\<close> for which the code computes
  \<open>int(np.log2(strides[-1])) = n\<close> with \<open>n + 1 \<ge> len(strides)\<close>, \<open>get_locations\<close>
  returns exactly \<open>len(strides)\<close> pairs: the last \<open>len(strides)\<close> elements of the
  sequence that starts at \<open>(lx, ly)\<close> and applies \<open>l \<mapsto> (l - 1) // 2 + 1\<close> to both
  components \<open>n\<close> times.  Here \<open>n\<close> is what \<open>int\<close> makes of the float that
  \<open>np.log2\<close> returns, whatever its rounding.  (The sizes need not even be positive.)
\<close>

theorem get_locations_last_levels:
  assumes "strides \<noteq> []"
    and "int_log2 np_log2 (last strides) = Inr n"
    and "int (length strides) \<le> n + 1"
  shows "\<exists>locs. get_locations np_log2 (lx, ly) strides = Inr locs
           \<and> length locs = length strides
           \<and> locs = drop (nat n + 1 - length strides)
                      (map (\<lambda>i. ((halve ^^ i) lx, (halve ^^ i) ly)) [0..<nat n + 1])"
proof -
  have "length strides \<le> nat n + 1"
    using assms(3) by linarith
  then show ?thesis
    using assms(1,2)
    by (simp add: get_locations_def slice_last_def locations_loop_init del: upt_Suc)
qed

lemma log2_unrounded_32: "int_log2 log2_unrounded 32 = Inr 5"
proof -
  have "log 2 (32 :: real) = log 2 (2 ^ 5)" by simp
  also have "\<dots> = 5" by (simp only: log_pow_cancel)
  finally show ?thesis
    by (simp add: int_log2_def log2_unrounded_def py_int_def)
qed

theorem get_locations_last_levels_witness:
  "get_locations log2_unrounded (300, 200) [8, 16, 32] = Inr [(38, 25), (19, 13), (10, 7)]"
proof -
  have n: "int_log2 log2_unrounded (last [8, 16, 32]) = Inr 5"
    by (simp add: log2_unrounded_32)
  have "(halve ^^ 3) 300 = 38" "(halve ^^ 4) 300 = 19" "(halve ^^ 5) 300 = 10"
       "(halve ^^ 3) 200 = 25" "(halve ^^ 4) 200 = 13" "(halve ^^ 5) 200 = 7"
    by (simp_all add: halve_def numeral_nat)
  moreover have "drop 3 (map (\<lambda>i. ((halve ^^ i) 300, (halve ^^ i) 200)) [0..<6])
      = [((halve ^^ 3) 300, (halve ^^ 3) 200), ((halve ^^ 4) 300, (halve ^^ 4) 200),
         ((halve ^^ 5) 300, (halve ^^ 5) 200)]"
    by (simp add: upt_rec drop_Cons' numeral_nat)
  ultimately show ?thesis
    using get_locations_last_levels [of "[8, 16, 32]" log2_unrounded 5 300 200] n
    by simp
qed

text \<open>
  The number of levels follows the float: where \<open>np.log2\<close> rounds up to the next integer,
  as it does just below a large power of two, one more level is computed than the
  integer part of the logarithm, and from \<open>2\<^sup>6\<^sup>4\<close> on the call raises TypeError.
\<close>

lemma get_locations_follows_np_log2:
  assumes "np_log2 s = Inr (Finite (real k))"
  shows "get_locations np_log2 (lx, ly) [s]
           = Inr [((halve ^^ k) lx, (halve ^^ k) ly)]"
proof -
  have "drop k (map (\<lambda>i. ((halve ^^ i) lx, (halve ^^ i) ly)) [0..<Suc k])
          = [((halve ^^ k) lx, (halve ^^ k) ly)]"
    by simp
  then show ?thesis
    using assms
    by (simp add: get_locations_def int_log2_def py_int_def slice_last_def locations_loop_init
        del: upt_Suc)
qed

lemma get_locations_TypeError:
  "get_locations log2_unrounded (lx, ly) [2 ^ 64] = Inl TypeError"
  by (simp add: get_locations_def int_log2_def log2_unrounded_def)

subsection \<open>\<open>MultiBoxLoss.__init__\<close>\<close>

text \<open>
  C7.  \<open>MultiBoxLoss.__init__\<close> raises ValueError if and only if \<open>criterion\<close> is neither
  \<open>'softmax'\<close> nor \<open>'focal'\<close>; it raises nothing else; \<open>'softmax'\<close> selects
  \<open>F.cross_entropy\<close> and \<open>'focal'\<close> selects \<open>focal_loss2\<close>.
\<close>

theorem MultiBoxLoss_init_criterion:
  "(MultiBoxLoss_init npr pr crit = Inl ValueError \<longleftrightarrow> crit \<noteq> ''softmax'' \<and> crit \<noteq> ''focal'')
   \<and> ((\<exists>e. MultiBoxLoss_init npr pr crit = Inl e) \<longleftrightarrow> crit \<noteq> ''softmax'' \<and> crit \<noteq> ''focal'')
   \<and> (crit = ''softmax'' \<longrightarrow>
        (\<exists>self. MultiBoxLoss_init npr pr crit = Inr self \<and> criterion self = F_cross_entropy))
   \<and> (crit = ''focal'' \<longrightarrow>
        (\<exists>self. MultiBoxLoss_init npr pr crit = Inr self \<and> criterion self = focal_loss2))"
  by (simp add: MultiBoxLoss_init_def)

theorem MultiBoxLoss_init_criterion_witness:
  "MultiBoxLoss_init (Some 3) 0.1 ''sigmoid'' = Inl ValueError
   \<and> (\<exists>self. MultiBoxLoss_init (Some 3) 0.1 ''softmax'' = Inr self \<and> criterion self = F_cross_entropy)
   \<and> (\<exists>self. MultiBoxLoss_init (Some 3) 0.1 ''focal'' = Inr self \<and> criterion self = focal_loss2)"
  using MultiBoxLoss_init_criterion [of "Some 3" "0.1" "''sigmoid''"]
    MultiBoxLoss_init_criterion [of "Some 3" "0.1" "''softmax''"]
    MultiBoxLoss_init_criterion [of "Some 3" "0.1" "''focal''"]
  by simp

subsection \<open>The precision envelope of \<open>average_precision\<close>\<close>

lemma Max_drop_step:
  assumes "Suc j < length (orig :: real list)"
  shows "Max (set (drop j orig)) = max (orig ! j) (Max (set (drop (Suc j) orig)))"
proof -
  have d: "drop j orig = orig ! j # drop (Suc j) orig"
    using assms by (simp add: Cons_nth_drop_Suc)
  have ne: "set (drop (Suc j) orig) \<noteq> {}"
    using assms by simp
  show ?thesis
    unfolding d using ne by (simp add: Max_insert)
qed

lemma mpre_loop_length [simp]: "length (mpre_loop j xs) = length xs"
  by (induction j arbitrary: xs) simp_all

lemma mpre_loop_suffix_max:
  assumes "j < length xs" and "length xs = length orig"
    and "\<And>t. j \<le> t \<Longrightarrow> t < length xs \<Longrightarrow> xs ! t = Max (set (drop t orig))"
    and "\<And>t. t < j \<Longrightarrow> xs ! t = orig ! t"
    and "t < length xs"
  shows "mpre_loop j xs ! t = Max (set (drop t orig))"
  using assms
proof (induction j arbitrary: xs)
  case 0
  then show ?case by simp
next
  case (Suc j)
  let ?xs' = "xs[j := max (xs ! j) (xs ! Suc j)]"
  have j: "j < length xs" using Suc.prems(1) by simp
  have new: "?xs' ! j = Max (set (drop j orig))"
  proof -
    have "xs ! j = orig ! j" using Suc.prems(4) by simp
    moreover have "xs ! Suc j = Max (set (drop (Suc j) orig))"
      using Suc.prems(1,3) by simp
    moreover have "Suc j < length orig" using Suc.prems(1,2) by simp
    ultimately show ?thesis using j by (simp add: Max_drop_step)
  qed
  have "mpre_loop j ?xs' ! t = Max (set (drop t orig))"
  proof (rule Suc.IH)
    show "j < length ?xs'" using j by simp
    show "length ?xs' = length orig" using Suc.prems(2) by simp
    show "t < length ?xs'" using Suc.prems(5) by simp
    show "?xs' ! u = Max (set (drop u orig))" if "j \<le> u" "u < length ?xs'" for u
    proof (cases "u = j")
      case True
      then show ?thesis using new by simp
    next
      case False
      then have "Suc j \<le> u" using that by simp
      then show ?thesis using that False Suc.prems(3) [of u] by simp
    qed
    show "?xs' ! u = orig ! u" if "u < j" for u
      using that Suc.prems(4) [of u] by simp
  qed
  then show ?case by simp
qed

lemma envelope_nth:
  assumes "t < length precision + 2"
  shows "mpre_loop (length precision + 1) (0 # precision @ [0]) ! t
         = Max (set (drop t (0 # precision @ [0])))"
proof (rule mpre_loop_suffix_max)
  let ?p = "0 # precision @ [0]"
  show "length precision + 1 < length ?p" by simp
  show "length ?p = length ?p" ..
  show "t < length ?p" using assms by simp
  show "?p ! u = ?p ! u" for u ..
  show "?p ! u = Max (set (drop u ?p))" if "length precision + 1 \<le> u" "u < length ?p" for u
  proof -
    have "u = length precision + 1" using that by simp
    then show ?thesis by (simp add: nth_append)
  qed
qed

text \<open>
  C10.  The second component of \<open>average_precision(recall, precision)\<close> has
  \<open>len(precision) + 1\<close> elements; its \<open>i\<close>-th element is the maximum of the
  elements from position \<open>i\<close> onward of the padded list \<open>[0, *precision, 0]\<close>, and
  each element is greater than or equal to the next.
\<close>

theorem average_precision_envelope:
  fixes recall precision :: "real list"
  defines "env \<equiv> fst (snd (average_precision recall precision))"
  shows "length env = length precision + 1
       \<and> (\<forall>i < length env. env ! i = Max (set (drop i ([0] @ precision @ [0]))))
       \<and> (\<forall>i. Suc i < length env \<longrightarrow> env ! Suc i \<le> env ! i)"
proof -
  let ?p = "0 # precision @ [0]"
  let ?m = "mpre_loop (length precision + 1) ?p"
  have env: "env = butlast ?m"
    by (simp add: env_def average_precision_def Let_def del: mpre_loop.simps)
  have len: "length env = length precision + 1"
    unfolding env by (simp del: mpre_loop.simps)
  have nth: "env ! i = Max (set (drop i ?p))" if "i < length env" for i
  proof -
    have "i < length precision + 2" using that len by simp
    then have "?m ! i = Max (set (drop i ?p))" by (rule envelope_nth)
    moreover have "env ! i = ?m ! i"
      using that unfolding env by (simp add: nth_butlast del: mpre_loop.simps)
    ultimately show ?thesis by simp
  qed
  have mono: "env ! Suc i \<le> env ! i" if "Suc i < length env" for i
  proof -
    have "Suc i < length ?p" using that len by simp
    then have "Max (set (drop i ?p)) = max (?p ! i) (Max (set (drop (Suc i) ?p)))"
      by (rule Max_drop_step)
    then show ?thesis using that nth [of i] nth [of "Suc i"] by simp
  qed
  from len nth mono show ?thesis by simp
qed

theorem average_precision_envelope_witness:
  "fst (snd (average_precision [1/2, 1/2, 1] [1, 1/2, 2/3])) ! 1
     = Max (set (drop 1 [0, 1, 1/2, 2/3, 0]))
   \<and> fst (snd (average_precision [1/2, 1/2, 1] [1, 1/2, 2/3])) ! Suc 1
     \<le> fst (snd (average_precision [1/2, 1/2, 1] [1, 1/2, 2/3])) ! 1"
proof -
  let ?env = "fst (snd (average_precision [1/2, 1/2, 1] [1, 1/2, 2/3]))"
  note t = average_precision_envelope [of "[1/2, 1/2, 1]" "[1, 1/2, 2/3]"]
  from t have len: "length ?env = 4" by simp
  from t have a: "\<forall>i < length ?env. ?env ! i = Max (set (drop i ([0] @ [1, 1/2, 2/3] @ [0])))"
    by blast
  from t have b: "\<forall>i. Suc i < length ?env \<longrightarrow> ?env ! Suc i \<le> ?env ! i"
    by blast
  have "(1::nat) < length ?env" "Suc 1 < length ?env" using len by simp_all
  with a b show ?thesis by auto
qed

subsection \<open>True positives of \<open>AP\<close>\<close>

lemma max_loop_snoc:
  "max_loop key b (xs @ [x]) =
     (if key x > key (max_loop key b xs) then x else max_loop key b xs)"
  by (induction xs arbitrary: b) simp_all

lemma max_loop_enumerate:
  "\<exists>j\<le>length xs. max_loop snd (n, x) (enumerate (Suc n) xs) = (n + j, (x # xs) ! j)
      \<and> (\<forall>k\<le>length xs. (x # xs) ! k \<le> (x # xs) ! j)
      \<and> (\<forall>k<j. (x # xs) ! k < (x # xs) ! j)"
proof (induction xs rule: rev_induct)
  case Nil
  show ?case by simp
next
  case (snoc y ys)
  then obtain j where j: "j \<le> length ys"
    and r: "max_loop snd (n, x) (enumerate (Suc n) ys) = (n + j, (x # ys) ! j)"
    and mx: "\<forall>k\<le>length ys. (x # ys) ! k \<le> (x # ys) ! j"
    and fst: "\<forall>k<j. (x # ys) ! k < (x # ys) ! j"
    by blast
  have en: "enumerate (Suc n) (ys @ [y]) = enumerate (Suc n) ys @ [(Suc n + length ys, y)]"
    by (simp add: enumerate_append_eq)
  have nth_old: "(x # ys @ [y]) ! k = (x # ys) ! k" if "k \<le> length ys" for k
    using that by (cases k) (simp_all add: nth_append)
  have nth_new: "(x # ys @ [y]) ! Suc (length ys) = y"
    by (simp add: nth_append)
  show ?case
  proof (cases "y > (x # ys) ! j")
    case True
    have "max_loop snd (n, x) (enumerate (Suc n) (ys @ [y])) = (n + Suc (length ys), y)"
      using True r by (simp add: en max_loop_snoc)
    moreover have "\<forall>k\<le>length (ys @ [y]). (x # ys @ [y]) ! k \<le> y"
    proof (intro allI impI)
      fix k assume "k \<le> length (ys @ [y])"
      then consider "k \<le> length ys" | "k = Suc (length ys)" by fastforce
      then show "(x # ys @ [y]) ! k \<le> y"
      proof cases
        case 1
        then show ?thesis using mx True nth_old [of k] by fastforce
      next
        case 2
        then show ?thesis using nth_new by simp
      qed
    qed
    moreover have "\<forall>k<Suc (length ys). (x # ys @ [y]) ! k < y"
    proof (intro allI impI)
      fix k assume "k < Suc (length ys)"
      then have "k \<le> length ys" by simp
      then show "(x # ys @ [y]) ! k < y" using mx True nth_old [of k] by fastforce
    qed
    ultimately show ?thesis
      using nth_new by (intro exI [of _ "Suc (length ys)"]) simp
  next
    case False
    have "max_loop snd (n, x) (enumerate (Suc n) (ys @ [y])) = (n + j, (x # ys) ! j)"
      using False r by (simp add: en max_loop_snoc)
    moreover have "\<forall>k\<le>length (ys @ [y]). (x # ys @ [y]) ! k \<le> (x # ys) ! j"
    proof (intro allI impI)
      fix k assume "k \<le> length (ys @ [y])"
      then consider "k \<le> length ys" | "k = Suc (length ys)" by fastforce
      then show "(x # ys @ [y]) ! k \<le> (x # ys) ! j"
      proof cases
        case 1
        then show ?thesis using mx nth_old [of k] by simp
      next
        case 2
        then show ?thesis using nth_new False by simp
      qed
    qed
    moreover have "\<forall>k<j. (x # ys @ [y]) ! k < (x # ys) ! j"
      using fst j nth_old by simp
    ultimately show ?thesis
      using j nth_old [of j] by (intro exI [of _ j]) simp
  qed
qed

lemma py_max_enumerate:
  assumes "xs \<noteq> []"
  shows "\<exists>j. py_max snd (enumerate 0 xs) = Inr (j, xs ! j) \<and> is_first_max xs j"
proof -
  obtain x rest where xs: "xs = x # rest" using assms by (cases xs) auto
  from max_loop_enumerate [of rest 0 x] obtain j where "j \<le> length rest"
    "max_loop snd (0, x) (enumerate (Suc 0) rest) = (j, (x # rest) ! j)"
    "\<forall>k\<le>length rest. (x # rest) ! k \<le> (x # rest) ! j"
    "\<forall>k<j. (x # rest) ! k < (x # rest) ! j"
    by auto
  then show ?thesis
    unfolding xs by (intro exI [of _ j]) (simp add: py_max_def is_first_max_def less_Suc_eq_le)
qed

lemma is_first_max_unique:
  assumes "is_first_max xs j" and "is_first_max xs j'"
  shows "j = j'"
proof (rule ccontr)
  assume "j \<noteq> j'"
  then consider "j < j'" | "j' < j" by linarith
  then show False
  proof cases
    case 1
    then have "xs ! j < xs ! j'" using assms(2) by (simp add: is_first_max_def)
    moreover have "xs ! j' \<le> xs ! j" using assms by (simp add: is_first_max_def)
    ultimately show False by simp
  next
    case 2
    then have "xs ! j' < xs ! j" using assms(1) by (simp add: is_first_max_def)
    moreover have "xs ! j \<le> xs ! j'" using assms by (simp add: is_first_max_def)
    ultimately show False by simp
  qed
qed

lemma j_max_of:
  assumes "gts \<noteq> []"
  shows "py_max snd (enumerate 0 (gt_ious iou dt gts))
           = Inr (j_max_of iou gts dt, gt_ious iou dt gts ! j_max_of iou gts dt)"
    and "is_first_max (gt_ious iou dt gts) (j_max_of iou gts dt)"
proof -
  have "gt_ious iou dt gts \<noteq> []" using assms by (simp add: gt_ious_def)
  from py_max_enumerate [OF this] obtain j where
    j: "py_max snd (enumerate 0 (gt_ious iou dt gts)) = Inr (j, gt_ious iou dt gts ! j)"
      "is_first_max (gt_ious iou dt gts) j" by blast
  then have "j_max_of iou gts dt = j" by (simp add: j_max_of_def)
  with j show "py_max snd (enumerate 0 (gt_ious iou dt gts))
           = Inr (j_max_of iou gts dt, gt_ious iou dt gts ! j_max_of iou gts dt)"
    and "is_first_max (gt_ious iou dt gts) (j_max_of iou gts dt)" by simp_all
qed

lemma count_seen_le: "count_seen seen \<le> length seen"
  unfolding count_seen_def by (induction seen) auto

lemma count_seen_replicate [simp]: "count_seen (replicate n False) = 0"
  by (simp add: count_seen_def)

lemma count_seen_update:
  assumes "j < length seen" and "\<not> seen ! j"
  shows "count_seen (seen[j := True]) = Suc (count_seen seen)"
  using assms
proof (induction seen arbitrary: j)
  case Nil
  then show ?case by simp
next
  case (Cons b bs)
  then show ?case by (cases j) (auto simp: count_seen_def)
qed

lemma sum_list_set_one:
  assumes "i < length (TP :: nat list)" and "TP ! i = 0"
  shows "sum_list (TP[i := 1]) = Suc (sum_list TP)"
  using assms
proof (induction TP arbitrary: i)
  case Nil
  then show ?case by simp
next
  case (Cons t ts)
  then show ?case by (cases i) auto
qed

lemma AP_loop_append:
  "AP_loop iou thr gts (xs @ ys) st =
     (case AP_loop iou thr gts xs st of Inl e \<Rightarrow> Inl e | Inr st' \<Rightarrow> AP_loop iou thr gts ys st')"
  by (induction xs arbitrary: st) (auto split: sum.splits)

lemma AP_step_inv:
  assumes gts: "gts \<noteq> []" and N: "length ds < N"
    and inv: "AP_inv iou thr gts ds N (TP, seen)"
  shows "\<exists>st'. AP_step iou thr gts (length ds) d (TP, seen) = Inr st'
              \<and> AP_inv iou thr gts (ds @ [d]) N st'"
proof -
  let ?k = "length ds"
  let ?j = "j_max_of iou gts d"
  let ?v = "gt_ious iou d gts ! ?j"
  let ?jm = "j_max_of iou gts"
  have pm: "py_max snd (enumerate 0 (gt_ious iou d gts)) = Inr (?j, ?v)"
    using gts by (rule j_max_of(1))
  have jlt: "?j < length gts"
    using j_max_of(2) [OF gts, of iou d] by (simp add: is_first_max_def gt_ious_def)
  from inv have lenTP: "length TP = N" and lenseen: "length seen = length gts"
    and zero: "\<And>i. ?k \<le> i \<Longrightarrow> i < N \<Longrightarrow> TP ! i = 0"
    and le1: "\<And>i. i < N \<Longrightarrow> TP ! i \<le> 1"
    and tp: "\<And>i. i < ?k \<Longrightarrow> TP ! i = 1 \<longleftrightarrow>
            thr < gt_ious iou (ds ! i) gts ! ?jm (ds ! i)
          \<and> (\<forall>i'<i. TP ! i' = 1 \<longrightarrow> ?jm (ds ! i') \<noteq> ?jm (ds ! i))"
    and seen: "\<And>j. j < length gts \<Longrightarrow> seen ! j \<longleftrightarrow> (\<exists>i<?k. TP ! i = 1 \<and> ?jm (ds ! i) = j)"
    and sum: "sum_list TP = count_seen seen"
    unfolding AP_inv_def by auto
  have TPk: "TP ! ?k = 0" using zero N by simp
  have old: "(ds @ [d]) ! i = ds ! i" if "i < ?k" for i
    using that by (simp add: nth_append)
  have new: "(ds @ [d]) ! ?k = d" by simp
  show ?thesis
  proof (cases "thr < ?v \<and> \<not> seen ! ?j")
    case True
    let ?TP = "TP[?k := 1]" and ?seen = "seen[?j := True]"
    have step: "AP_step iou thr gts ?k d (TP, seen) = Inr (?TP, ?seen)"
      using True pm by (simp add: AP_step_def)
    have nomatch: "\<not> (\<exists>i<?k. TP ! i = 1 \<and> ?jm (ds ! i) = ?j)"
      using True seen [OF jlt] by simp
    have TPold: "?TP ! i = TP ! i" if "i \<noteq> ?k" for i using that by simp
    have TPnew: "?TP ! ?k = 1" using N lenTP by simp
    have c1: "length ?TP = N \<and> length ?seen = length gts"
      using lenTP lenseen by simp
    have c2: "\<forall>i. length (ds @ [d]) \<le> i \<and> i < N \<longrightarrow> ?TP ! i = 0"
      using zero by simp
    have c3: "\<forall>i<N. ?TP ! i \<le> 1"
      using le1 lenTP N by (auto simp: nth_list_update)
    have c4: "\<forall>i<length (ds @ [d]). ?TP ! i = 1 \<longleftrightarrow>
            thr < gt_ious iou ((ds @ [d]) ! i) gts ! ?jm ((ds @ [d]) ! i)
          \<and> (\<forall>i'<i. ?TP ! i' = 1 \<longrightarrow> ?jm ((ds @ [d]) ! i') \<noteq> ?jm ((ds @ [d]) ! i))"
    proof (intro allI impI)
      fix i assume "i < length (ds @ [d])"
      then consider "i < ?k" | "i = ?k" by fastforce
      then show "?TP ! i = 1 \<longleftrightarrow>
            thr < gt_ious iou ((ds @ [d]) ! i) gts ! ?jm ((ds @ [d]) ! i)
          \<and> (\<forall>i'<i. ?TP ! i' = 1 \<longrightarrow> ?jm ((ds @ [d]) ! i') \<noteq> ?jm ((ds @ [d]) ! i))"
      proof cases
        case 1
        have "(\<forall>i'<i. ?TP ! i' = 1 \<longrightarrow> ?jm ((ds @ [d]) ! i') \<noteq> ?jm (ds ! i))
              \<longleftrightarrow> (\<forall>i'<i. TP ! i' = 1 \<longrightarrow> ?jm (ds ! i') \<noteq> ?jm (ds ! i))"
          using 1 by (auto simp: nth_append)
        then show ?thesis using 1 tp [OF 1] TPold [of i] old [OF 1] by simp
      next
        case 2
        have "\<forall>i'<?k. ?TP ! i' = 1 \<longrightarrow> ?jm ((ds @ [d]) ! i') \<noteq> ?j"
          using nomatch by (auto simp: nth_append)
        then show ?thesis using 2 TPnew True new by simp
      qed
    qed
    have c5: "\<forall>j<length gts. ?seen ! j \<longleftrightarrow>
               (\<exists>i<length (ds @ [d]). ?TP ! i = 1 \<and> ?jm ((ds @ [d]) ! i) = j)"
    proof (intro allI impI)
      fix j assume j: "j < length gts"
      show "?seen ! j \<longleftrightarrow> (\<exists>i<length (ds @ [d]). ?TP ! i = 1 \<and> ?jm ((ds @ [d]) ! i) = j)"
      proof (cases "j = ?j")
        case True
        have "?seen ! j" using True jlt lenseen by simp
        moreover have "?k < length (ds @ [d]) \<and> ?TP ! ?k = 1 \<and> ?jm ((ds @ [d]) ! ?k) = j"
          using TPnew True by simp
        ultimately show ?thesis by blast
      next
        case False
        have "(\<exists>i<length (ds @ [d]). ?TP ! i = 1 \<and> ?jm ((ds @ [d]) ! i) = j)
              \<longleftrightarrow> (\<exists>i<?k. TP ! i = 1 \<and> ?jm (ds ! i) = j)"
        proof
          assume "\<exists>i<length (ds @ [d]). ?TP ! i = 1 \<and> ?jm ((ds @ [d]) ! i) = j"
          then obtain i where i: "i < Suc ?k" "?TP ! i = 1" "?jm ((ds @ [d]) ! i) = j" by auto
          have "i \<noteq> ?k" using i(3) False by auto
          then have "i < ?k" using i(1) by simp
          then show "\<exists>i<?k. TP ! i = 1 \<and> ?jm (ds ! i) = j"
            using i by (auto simp: nth_append)
        next
          assume "\<exists>i<?k. TP ! i = 1 \<and> ?jm (ds ! i) = j"
          then obtain i where i: "i < ?k" "TP ! i = 1" "?jm (ds ! i) = j" by auto
          then have "i < length (ds @ [d]) \<and> ?TP ! i = 1 \<and> ?jm ((ds @ [d]) ! i) = j"
            by (simp add: nth_append)
          then show "\<exists>i<length (ds @ [d]). ?TP ! i = 1 \<and> ?jm ((ds @ [d]) ! i) = j" by blast
        qed
        moreover have "?seen ! j = seen ! j" using False by simp
        ultimately show ?thesis using seen [OF j] by simp
      qed
    qed
    have c6: "sum_list ?TP = count_seen ?seen"
    proof -
      have "sum_list ?TP = Suc (sum_list TP)"
        using N lenTP TPk by (intro sum_list_set_one) simp_all
      moreover have "count_seen ?seen = Suc (count_seen seen)"
        using jlt lenseen True by (intro count_seen_update) simp_all
      ultimately show ?thesis using sum by simp
    qed
    have "AP_inv iou thr gts (ds @ [d]) N (?TP, ?seen)"
      unfolding AP_inv_def using c1 c2 c3 c4 c5 c6 by simp
    with step show ?thesis by blast
  next
    case False
    have step: "AP_step iou thr gts ?k d (TP, seen) = Inr (TP, seen)"
      using False pm by (auto simp: AP_step_def)
    have c2: "\<forall>i. length (ds @ [d]) \<le> i \<and> i < N \<longrightarrow> TP ! i = 0"
      using zero by simp
    have blocked: "\<not> (thr < ?v \<and> (\<forall>i'<?k. TP ! i' = 1 \<longrightarrow> ?jm (ds ! i') \<noteq> ?j))"
      using False seen [OF jlt] by auto
    have c4: "\<forall>i<length (ds @ [d]). TP ! i = 1 \<longleftrightarrow>
            thr < gt_ious iou ((ds @ [d]) ! i) gts ! ?jm ((ds @ [d]) ! i)
          \<and> (\<forall>i'<i. TP ! i' = 1 \<longrightarrow> ?jm ((ds @ [d]) ! i') \<noteq> ?jm ((ds @ [d]) ! i))"
    proof (intro allI impI)
      fix i assume "i < length (ds @ [d])"
      then consider "i < ?k" | "i = ?k" by fastforce
      then show "TP ! i = 1 \<longleftrightarrow>
            thr < gt_ious iou ((ds @ [d]) ! i) gts ! ?jm ((ds @ [d]) ! i)
          \<and> (\<forall>i'<i. TP ! i' = 1 \<longrightarrow> ?jm ((ds @ [d]) ! i') \<noteq> ?jm ((ds @ [d]) ! i))"
      proof cases
        case 1
        have "(\<forall>i'<i. TP ! i' = 1 \<longrightarrow> ?jm ((ds @ [d]) ! i') \<noteq> ?jm (ds ! i))
              \<longleftrightarrow> (\<forall>i'<i. TP ! i' = 1 \<longrightarrow> ?jm (ds ! i') \<noteq> ?jm (ds ! i))"
          using 1 by (auto simp: nth_append)
        then show ?thesis using 1 tp [OF 1] old [OF 1] by simp
      next
        case 2
        have "(\<forall>i'<?k. TP ! i' = 1 \<longrightarrow> ?jm ((ds @ [d]) ! i') \<noteq> ?j)
              \<longleftrightarrow> (\<forall>i'<?k. TP ! i' = 1 \<longrightarrow> ?jm (ds ! i') \<noteq> ?j)"
          by (auto simp: nth_append)
        then show ?thesis using 2 TPk blocked new by simp
      qed
    qed
    have c5: "\<forall>j<length gts. seen ! j \<longleftrightarrow>
               (\<exists>i<length (ds @ [d]). TP ! i = 1 \<and> ?jm ((ds @ [d]) ! i) = j)"
    proof (intro allI impI)
      fix j assume j: "j < length gts"
      have "(\<exists>i<length (ds @ [d]). TP ! i = 1 \<and> ?jm ((ds @ [d]) ! i) = j)
              \<longleftrightarrow> (\<exists>i<?k. TP ! i = 1 \<and> ?jm (ds ! i) = j)"
      proof
        assume "\<exists>i<length (ds @ [d]). TP ! i = 1 \<and> ?jm ((ds @ [d]) ! i) = j"
        then obtain i where i: "i < Suc ?k" "TP ! i = 1" "?jm ((ds @ [d]) ! i) = j" by auto
        have "i \<noteq> ?k" using i(2) TPk by auto
        then have "i < ?k" using i(1) by simp
        then show "\<exists>i<?k. TP ! i = 1 \<and> ?jm (ds ! i) = j"
          using i by (auto simp: nth_append)
      next
        assume "\<exists>i<?k. TP ! i = 1 \<and> ?jm (ds ! i) = j"
        then obtain i where i: "i < ?k" "TP ! i = 1" "?jm (ds ! i) = j" by auto
        then have "i < length (ds @ [d]) \<and> TP ! i = 1 \<and> ?jm ((ds @ [d]) ! i) = j"
          by (simp add: nth_append)
        then show "\<exists>i<length (ds @ [d]). TP ! i = 1 \<and> ?jm ((ds @ [d]) ! i) = j" by blast
      qed
      then show "seen ! j \<longleftrightarrow> (\<exists>i<length (ds @ [d]). TP ! i = 1 \<and> ?jm ((ds @ [d]) ! i) = j)"
        using seen [OF j] by simp
    qed
    have "AP_inv iou thr gts (ds @ [d]) N (TP, seen)"
      unfolding AP_inv_def using lenTP lenseen c2 le1 c4 c5 sum by simp
    with step show ?thesis by blast
  qed
qed

lemma AP_loop_inv:
  assumes gts: "gts \<noteq> []" and N: "length ds \<le> N"
  shows "\<exists>st. AP_loop iou thr gts (enumerate 0 ds)
                 (replicate N 0, replicate (length gts) False) = Inr st
             \<and> AP_inv iou thr gts ds N st"
  using N
proof (induction ds rule: rev_induct)
  case Nil
  show ?case by (simp add: AP_inv_def)
next
  case (snoc d ds)
  then obtain st where st: "AP_loop iou thr gts (enumerate 0 ds)
                 (replicate N 0, replicate (length gts) False) = Inr st"
    and inv: "AP_inv iou thr gts ds N st" by auto
  obtain TP seen where [simp]: "st = (TP, seen)" by (cases st)
  have "length ds < N" using snoc.prems by simp
  from AP_step_inv [OF gts this inv [simplified], of d] obtain st' where
    "AP_step iou thr gts (length ds) d (TP, seen) = Inr st'"
    "AP_inv iou thr gts (ds @ [d]) N st'" by blast
  then show ?case
    using st by (simp add: enumerate_append_eq AP_loop_append)
qed

lemma AP_TP_no_gts:
  "AP_TP iou thr dts [] = (if dts = [] then Inr ([], []) else Inl ValueError)"
proof (cases dts)
  case Nil
  then show ?thesis by (simp add: AP_TP_def)
next
  case (Cons d ds)
  then show ?thesis
    by (simp add: AP_TP_def AP_step_def gt_ious_def py_max_def)
qed

text \<open>
  C6.  \<open>AP\<close> raises only for detections without any ground truth.  Otherwise detection
  \<open>i\<close> is counted as a true positive exactly when the ground truth \<open>j\<close> of maximal IoU
  with it (the first such) has IoU strictly greater than \<open>iou_threshold\<close> and no earlier
  true positive has \<open>j\<close> as its ground truth of maximal IoU; no ground truth is matched by
  two detections, and the number of true positives is at most the number of ground truths.
\<close>

theorem AP_true_positives:
  "(case AP_TP iou thr dts gts of
      Inl e \<Rightarrow> e = ValueError \<and> gts = [] \<and> dts \<noteq> []
    | Inr (TP, seen) \<Rightarrow>
        length TP = length dts
      \<and> sum_list TP \<le> length gts
      \<and> (\<forall>i<length dts. TP ! i = 0 \<or> TP ! i = 1)
      \<and> (\<forall>i<length dts. TP ! i = 1 \<longleftrightarrow>
           (\<exists>j. is_first_max (gt_ious iou (dts ! i) gts) j
              \<and> thr < gt_ious iou (dts ! i) gts ! j
              \<and> (\<forall>i'<i. TP ! i' = 1 \<longrightarrow> \<not> is_first_max (gt_ious iou (dts ! i') gts) j)))
      \<and> (\<forall>i<length dts. \<forall>i'<length dts. \<forall>j.
            TP ! i = 1 \<and> TP ! i' = 1
          \<and> is_first_max (gt_ious iou (dts ! i) gts) j
          \<and> is_first_max (gt_ious iou (dts ! i') gts) j \<longrightarrow> i = i'))"
proof (cases "gts = []")
  case True
  then show ?thesis by (simp add: AP_TP_no_gts)
next
  case gts: False
  let ?jm = "j_max_of iou gts"
  let ?ious = "\<lambda>i. gt_ious iou (dts ! i) gts"
  from AP_loop_inv [OF gts, of dts "length dts" iou thr]
  obtain st where st: "AP_TP iou thr dts gts = Inr st"
    and inv: "AP_inv iou thr gts dts (length dts) st"
    unfolding AP_TP_def by auto
  obtain TP seen where [simp]: "st = (TP, seen)" by (cases st)
  from inv have lenTP: "length TP = length dts" and lenseen: "length seen = length gts"
    and le1: "\<And>i. i < length dts \<Longrightarrow> TP ! i \<le> 1"
    and tp: "\<And>i. i < length dts \<Longrightarrow> TP ! i = 1 \<longleftrightarrow>
            thr < ?ious i ! ?jm (dts ! i)
          \<and> (\<forall>i'<i. TP ! i' = 1 \<longrightarrow> ?jm (dts ! i') \<noteq> ?jm (dts ! i))"
    and sum: "sum_list TP = count_seen seen"
    unfolding AP_inv_def by auto
  have fm: "is_first_max (?ious i) (?jm (dts ! i))" for i
    using gts by (rule j_max_of(2))
  have uniq: "is_first_max (?ious i) j \<longleftrightarrow> j = ?jm (dts ! i)" for i j
    using fm [of i] is_first_max_unique by blast
  have c2: "sum_list TP \<le> length gts"
    using sum count_seen_le [of seen] lenseen by simp
  have c3: "\<forall>i<length dts. TP ! i = 0 \<or> TP ! i = 1"
    using le1 by (auto simp: le_Suc_eq)
  have c4: "\<forall>i<length dts. TP ! i = 1 \<longleftrightarrow>
           (\<exists>j. is_first_max (?ious i) j \<and> thr < ?ious i ! j
              \<and> (\<forall>i'<i. TP ! i' = 1 \<longrightarrow> \<not> is_first_max (?ious i') j))"
  proof (intro allI impI)
    fix i assume i: "i < length dts"
    have "(\<exists>j. is_first_max (?ious i) j \<and> thr < ?ious i ! j
              \<and> (\<forall>i'<i. TP ! i' = 1 \<longrightarrow> \<not> is_first_max (?ious i') j))
          \<longleftrightarrow> (thr < ?ious i ! ?jm (dts ! i)
              \<and> (\<forall>i'<i. TP ! i' = 1 \<longrightarrow> ?jm (dts ! i') \<noteq> ?jm (dts ! i)))"
      unfolding uniq by auto
    then show "TP ! i = 1 \<longleftrightarrow>
           (\<exists>j. is_first_max (?ious i) j \<and> thr < ?ious i ! j
              \<and> (\<forall>i'<i. TP ! i' = 1 \<longrightarrow> \<not> is_first_max (?ious i') j))"
      using tp [OF i] by blast
  qed
  have c5: "\<forall>i<length dts. \<forall>i'<length dts. \<forall>j.
            TP ! i = 1 \<and> TP ! i' = 1 \<and> is_first_max (?ious i) j \<and> is_first_max (?ious i') j
            \<longrightarrow> i = i'"
  proof (intro allI impI)
    fix i i' j
    assume i: "i < length dts" and i': "i' < length dts"
      and h: "TP ! i = 1 \<and> TP ! i' = 1 \<and> is_first_max (?ious i) j \<and> is_first_max (?ious i') j"
    then have eq: "?jm (dts ! i) = ?jm (dts ! i')" by (simp add: uniq)
    show "i = i'"
    proof (rule ccontr)
      assume "i \<noteq> i'"
      then consider "i' < i" | "i < i'" by linarith
      then show False
      proof cases
        case 1
        then show False using tp [OF i] h eq by auto
      next
        case 2
        then show False using tp [OF i'] h eq by auto
      qed
    qed
  qed
  show ?thesis
    using st lenTP c2 c3 c4 c5 by simp
qed

theorem AP_true_positives_witness:
  "AP_TP same_box_iou (1/2)
     [\<lparr>image_id = 0, category_id = 1, bbox = (0, 0, 2, 2)\<rparr>,
      \<lparr>image_id = 0, category_id = 1, bbox = (0, 0, 2, 2)\<rparr>]
     [\<lparr>image_id = 0, category_id = 1, bbox = (0, 0, 2, 2)\<rparr>] = Inr ([1, 0], [True])
   \<and> sum_list [1, 0 :: nat] \<le> length [\<lparr>image_id = 0 :: int, category_id = 1 :: int, bbox = (0, 0, 2, 2) :: box\<rparr>]"
proof -
  let ?b = "\<lparr>image_id = 0, category_id = 1, bbox = (0, 0, 2, 2)\<rparr>"
  have ev: "AP_TP same_box_iou (1/2) [?b, ?b] [?b] = Inr ([1, 0], [True])"
    by (simp add: AP_TP_def AP_step_def gt_ious_def py_max_def same_box_iou_def)
  show ?thesis
    using AP_true_positives [where iou = same_box_iou and thr = "1/2" and dts = "[?b, ?b]" and gts = "[?b]"] ev
    by simp
qed

subsection \<open>\<open>mAP\<close>\<close>

lemma group_insert_keys:
  "map fst (group_insert k x d) = (if k \<in> set (map fst d) then map fst d else map fst d @ [k])"
proof (induction d)
  case Nil
  show ?case by simp
next
  case (Cons p d)
  obtain k' v where p: "p = (k', v)" by (cases p)
  show ?case
  proof (cases "k = k'")
    case True
    then show ?thesis by (simp add: p)
  next
    case False
    then show ?thesis using Cons.IH by (simp add: p)
  qed
qed

lemma map_of_group_insert:
  "map_of (group_insert k x d) =
     (map_of d)(k \<mapsto> (case map_of d k of None \<Rightarrow> [x] | Some v \<Rightarrow> v @ [x]))"
  by (induction d) (auto simp: fun_eq_iff)

lemma groupby_snoc: "groupby f (xs @ [x]) = group_insert (f x) x (groupby f xs)"
  by (simp add: groupby_def)

lemma groupby_keys:
  "distinct (map fst (groupby f xs)) \<and> set (map fst (groupby f xs)) = f ` set xs"
proof (induction xs rule: rev_induct)
  case Nil
  show ?case by (simp add: groupby_def)
next
  case (snoc x xs)
  then show ?case
    by (auto simp: groupby_snoc group_insert_keys simp del: map_map)
qed

lemma map_of_groupby:
  "map_of (groupby f xs) k =
     (if k \<in> f ` set xs then Some (filter (\<lambda>x. f x = k) xs) else None)"
proof (induction xs arbitrary: k rule: rev_induct)
  case Nil
  show ?case by (simp add: groupby_def)
next
  case (snoc x xs)
  show ?case
  proof (cases "k = f x")
    case True
    show ?thesis
    proof (cases "f x \<in> f ` set xs")
      case True
      then show ?thesis using snoc [of "f x"] \<open>k = f x\<close>
        by (simp add: groupby_snoc map_of_group_insert)
    next
      case False
      then have "\<forall>y\<in>set xs. f y \<noteq> f x"
        by (metis imageI)
      then have "filter (\<lambda>y. f y = f x) xs = []"
        by (simp add: filter_empty_conv)
      then show ?thesis using snoc [of "f x"] \<open>k = f x\<close> False
        by (simp add: groupby_snoc map_of_group_insert)
    qed
  next
    case False
    then show ?thesis using snoc [of k]
      by (auto simp: groupby_snoc map_of_group_insert)
  qed
qed

lemma groupby_items:
  "groupby f xs = map (\<lambda>k. (k, filter (\<lambda>x. f x = k) xs)) (map fst (groupby f xs))"
proof -
  have "map (\<lambda>p. (fst p, filter (\<lambda>x. f x = fst p) xs)) (groupby f xs) = groupby f xs"
  proof (rule map_idI)
    fix p assume p: "p \<in> set (groupby f xs)"
    obtain k v where kv: "p = (k, v)" by (cases p)
    have "map_of (groupby f xs) k = Some v"
      using p kv groupby_keys [of f xs] by (simp add: map_of_is_SomeI)
    then have "v = filter (\<lambda>x. f x = k) xs"
      by (simp add: map_of_groupby split: if_splits)
    then show "(fst p, filter (\<lambda>x. f x = fst p) xs) = p" using kv by simp
  qed
  then show ?thesis by (simp add: comp_def)
qed

lemma collect_all_Inr: "collect (map (\<lambda>x. Inr (h x)) xs) = Inr (map h xs)"
  by (induction xs) simp_all

lemma np_mean_Some:
  "np_mean (map (\<lambda>x. Some (h x)) xs) =
     (if xs = [] then None else Some (sum_list (map h xs) / real (length xs)))"
  by (auto simp: np_mean_def comp_def)

lemma mean_list_distinct:
  assumes "distinct xs"
  shows "sum_list (map h xs) / real (length xs) = mean_set (set xs) h"
  using assms by (simp add: mean_set_def sum_list_distinct_conv_sum_set distinct_card)

lemma AP_returns:
  assumes "gts \<noteq> []"
  shows "AP iou dts gts thr = Inr (AP_value iou dts gts thr)"
proof -
  from AP_loop_inv [OF assms, of dts "length dts" iou thr]
  obtain st where "AP_TP iou thr dts gts = Inr st"
    unfolding AP_TP_def by auto
  then have "\<exists>v. AP iou dts gts thr = Inr v"
    by (cases st) (simp add: AP_def Let_def)
  then show ?thesis by (auto simp: AP_value_def)
qed

lemma image_dts_lookup:
  "(case map_of (groupby image_id dets) i of None \<Rightarrow> [] | Some ds \<Rightarrow> ds)
     = filter (\<lambda>d. image_id d = i) dets"
proof (cases "i \<in> image_id ` set dets")
  case True
  then show ?thesis by (simp add: map_of_groupby)
next
  case False
  then have "\<forall>d\<in>set dets. image_id d \<noteq> i" by (metis imageI)
  then have "filter (\<lambda>d. image_id d = i) dets = []" by (simp add: filter_empty_conv)
  then show ?thesis using False by (simp add: map_of_groupby)
qed

lemma class_AP_value:
  assumes c: "c \<in> category_id ` set (filter (\<lambda>g. image_id g = i) gts)"
  shows "class_AP iou thr (groupby category_id (filter (\<lambda>d. image_id d = i) dets))
           (c, filter (\<lambda>g. category_id g = c) (filter (\<lambda>g. image_id g = i) gts))
         = Inr (Some (class_score iou thr dets gts i c))"
proof -
  let ?i_dts = "filter (\<lambda>d. image_id d = i) dets"
  let ?ds = "filter (\<lambda>d. image_id d = i \<and> category_id d = c) dets"
  let ?gs = "filter (\<lambda>g. image_id g = i \<and> category_id g = c) gts"
  have ds: "filter (\<lambda>d. category_id d = c) ?i_dts = ?ds" by simp
  have gs: "filter (\<lambda>g. category_id g = c) (filter (\<lambda>g. image_id g = i) gts) = ?gs" by simp
  have gne: "?gs \<noteq> []"
    using c by (auto simp: filter_empty_conv)
  show ?thesis
  proof (cases "c \<in> category_id ` set ?i_dts")
    case True
    then have "?ds \<noteq> []" by (auto simp: filter_empty_conv)
    moreover have "map_of (groupby category_id ?i_dts) c = Some ?ds"
      using True by (simp only: map_of_groupby ds if_True)
    ultimately show ?thesis
      using AP_returns [OF gne, of iou ?ds thr]
      by (simp only: class_AP_def gs class_score_def Let_def prod.case option.case sum.case if_False)
  next
    case False
    then have "\<forall>d\<in>set ?i_dts. category_id d \<noteq> c" by (metis imageI)
    then have "?ds = []" by (auto simp: filter_empty_conv)
    moreover have "map_of (groupby category_id ?i_dts) c = None"
      using False by (simp only: map_of_groupby if_False)
    ultimately show ?thesis
      by (simp add: class_AP_def class_score_def)
  qed
qed

lemma image_AP_value:
  assumes i: "i \<in> image_id ` set gts"
  shows "image_AP iou thr (groupby image_id dets) (i, filter (\<lambda>g. image_id g = i) gts)
         = Inr (Some (mean_set (category_id ` {g \<in> set gts. image_id g = i})
                        (class_score iou thr dets gts i)))"
proof -
  let ?i_gts = "filter (\<lambda>g. image_id g = i) gts"
  let ?i_dts = "filter (\<lambda>d. image_id d = i) dets"
  let ?ks = "map fst (groupby category_id ?i_gts)"
  have ks: "distinct ?ks" "set ?ks = category_id ` {g \<in> set gts. image_id g = i}"
    using groupby_keys [of category_id ?i_gts] by simp_all
  have ne: "?ks \<noteq> []"
  proof -
    have "set ?ks \<noteq> {}" using i unfolding ks(2) by auto
    then show ?thesis by auto
  qed
  have items: "groupby category_id ?i_gts
                 = map (\<lambda>c. (c, filter (\<lambda>g. category_id g = c) ?i_gts)) ?ks"
    by (rule groupby_items)
  have "map (class_AP iou thr (groupby category_id ?i_dts)) (groupby category_id ?i_gts)
        = map (\<lambda>c. Inr (Some (class_score iou thr dets gts i c))) ?ks"
  proof -
    have "map (class_AP iou thr (groupby category_id ?i_dts)) (groupby category_id ?i_gts)
          = map (\<lambda>c. class_AP iou thr (groupby category_id ?i_dts)
                        (c, filter (\<lambda>g. category_id g = c) ?i_gts)) ?ks"
      by (subst items) (simp only: map_map comp_def)
    also have "\<dots> = map (\<lambda>c. Inr (Some (class_score iou thr dets gts i c))) ?ks"
    proof (rule map_cong [OF refl])
      fix c assume "c \<in> set ?ks"
      then have "c \<in> category_id ` set ?i_gts" using groupby_keys [of category_id ?i_gts] by simp
      then show "class_AP iou thr (groupby category_id ?i_dts)
                   (c, filter (\<lambda>g. category_id g = c) ?i_gts)
                 = Inr (Some (class_score iou thr dets gts i c))"
        by (rule class_AP_value)
    qed
    finally show ?thesis .
  qed
  then have "collect (map (class_AP iou thr (groupby category_id ?i_dts)) (groupby category_id ?i_gts))
        = Inr (map (\<lambda>c. Some (class_score iou thr dets gts i c)) ?ks)"
    by (simp only: collect_all_Inr)
  moreover have "np_mean (map (\<lambda>c. Some (class_score iou thr dets gts i c)) ?ks)
        = Some (mean_set (category_id ` {g \<in> set gts. image_id g = i}) (class_score iou thr dets gts i))"
    using ne mean_list_distinct [OF ks(1), of "class_score iou thr dets gts i"]
    by (simp only: np_mean_Some ks(2) if_False)
  ultimately show ?thesis
    by (simp only: image_AP_def prod.case Let_def image_dts_lookup sum.case)
qed

lemma mAP_formula:
  "mAP iou dets gts thr =
     Inr (if gts = [] then None
          else Some (mean_set (image_id ` set gts)
                 (\<lambda>i. mean_set (category_id ` {g \<in> set gts. image_id g = i})
                        (class_score iou thr dets gts i))))"
proof -
  let ?ks = "map fst (groupby image_id gts)"
  let ?val = "\<lambda>i. mean_set (category_id ` {g \<in> set gts. image_id g = i})
                        (class_score iou thr dets gts i)"
  have ks: "distinct ?ks" "set ?ks = image_id ` set gts"
    using groupby_keys [of image_id gts] by simp_all
  have ne: "?ks = [] \<longleftrightarrow> gts = []"
  proof -
    have "set ?ks = {} \<longleftrightarrow> gts = []" unfolding ks(2) by simp
    then show ?thesis by simp
  qed
  have items: "groupby image_id gts = map (\<lambda>i. (i, filter (\<lambda>g. image_id g = i) gts)) ?ks"
    by (rule groupby_items)
  have "map (image_AP iou thr (groupby image_id dets)) (groupby image_id gts)
        = map (\<lambda>i. Inr (Some (?val i))) ?ks"
  proof -
    have "map (image_AP iou thr (groupby image_id dets)) (groupby image_id gts)
          = map (\<lambda>i. image_AP iou thr (groupby image_id dets)
                        (i, filter (\<lambda>g. image_id g = i) gts)) ?ks"
      by (subst items) (simp only: map_map comp_def)
    also have "\<dots> = map (\<lambda>i. Inr (Some (?val i))) ?ks"
    proof (rule map_cong [OF refl])
      fix i assume "i \<in> set ?ks"
      then have "i \<in> image_id ` set gts" using ks(2) by simp
      then show "image_AP iou thr (groupby image_id dets) (i, filter (\<lambda>g. image_id g = i) gts)
                 = Inr (Some (?val i))"
        by (rule image_AP_value)
    qed
    finally show ?thesis .
  qed
  then have "collect (map (image_AP iou thr (groupby image_id dets)) (groupby image_id gts))
        = Inr (map (\<lambda>i. Some (?val i)) ?ks)"
    by (simp only: collect_all_Inr)
  moreover have "np_mean (map (\<lambda>i. Some (?val i)) ?ks)
        = (if gts = [] then None else Some (mean_set (image_id ` set gts) ?val))"
    using ne mean_list_distinct [OF ks(1), of ?val]
    by (simp only: np_mean_Some ks(2))
  ultimately show ?thesis
    by (simp only: mAP_def Let_def sum.case)
qed

lemma class_score_filter:
  assumes "i \<in> S"
  shows "class_score iou thr (filter (\<lambda>d. image_id d \<in> S) dets) gts i c
         = class_score iou thr dets gts i c"
proof -
  have "filter (\<lambda>d. image_id d = i \<and> category_id d = c) (filter (\<lambda>d. image_id d \<in> S) dets)
        = filter (\<lambda>d. image_id d = i \<and> category_id d = c) dets"
    using assms by (auto simp: filter_filter intro: filter_cong)
  then show ?thesis by (simp only: class_score_def)
qed

text \<open>
  C5.  \<open>mAP\<close> raises nothing.  It returns the mean, over the images that appear in
  \<open>ground_truths\<close>, of the mean over the image's ground-truth classes of the per-class
  \<open>AP\<close> (which returns a value for each of them), where a class without detections on
  that image counts 0; it is \<open>nan\<close> when there is no ground truth at all.  Detections on
  images without ground truth change nothing.
\<close>

theorem mAP_mean_of_class_means:
  "mAP iou dets gts thr =
     Inr (if gts = [] then None
          else Some (mean_set (image_id ` set gts)
                 (\<lambda>i. mean_set (category_id ` {g \<in> set gts. image_id g = i})
                        (class_score iou thr dets gts i))))
   \<and> (\<forall>i c. (\<exists>g\<in>set gts. image_id g = i \<and> category_id g = c) \<longrightarrow>
         AP iou (filter (\<lambda>d. image_id d = i \<and> category_id d = c) dets)
                (filter (\<lambda>g. image_id g = i \<and> category_id g = c) gts) thr
         = Inr (AP_value iou (filter (\<lambda>d. image_id d = i \<and> category_id d = c) dets)
                  (filter (\<lambda>g. image_id g = i \<and> category_id g = c) gts) thr))
   \<and> (\<forall>dets'. filter (\<lambda>d. image_id d \<in> image_id ` set gts) dets'
                  = filter (\<lambda>d. image_id d \<in> image_id ` set gts) dets
         \<longrightarrow> mAP iou dets' gts thr = mAP iou dets gts thr)"
proof (intro conjI allI impI)
  show "mAP iou dets gts thr =
     Inr (if gts = [] then None
          else Some (mean_set (image_id ` set gts)
                 (\<lambda>i. mean_set (category_id ` {g \<in> set gts. image_id g = i})
                        (class_score iou thr dets gts i))))"
    by (rule mAP_formula)
next
  fix i c assume "\<exists>g\<in>set gts. image_id g = i \<and> category_id g = c"
  then have "filter (\<lambda>g. image_id g = i \<and> category_id g = c) gts \<noteq> []"
    by (auto simp: filter_empty_conv)
  then show "AP iou (filter (\<lambda>d. image_id d = i \<and> category_id d = c) dets)
                (filter (\<lambda>g. image_id g = i \<and> category_id g = c) gts) thr
         = Inr (AP_value iou (filter (\<lambda>d. image_id d = i \<and> category_id d = c) dets)
                  (filter (\<lambda>g. image_id g = i \<and> category_id g = c) gts) thr)"
    by (rule AP_returns)
next
  fix dets' :: "'a BBox_scheme list"
  let ?S = "image_id ` set gts"
  assume eq: "filter (\<lambda>d. image_id d \<in> ?S) dets' = filter (\<lambda>d. image_id d \<in> ?S) dets"
  have score: "class_score iou thr dets' gts i c = class_score iou thr dets gts i c"
    if "i \<in> ?S" for i c
    using class_score_filter [OF that, of iou thr dets' gts c]
      class_score_filter [OF that, of iou thr dets gts c] eq by simp
  have "mean_set ?S (\<lambda>i. mean_set (category_id ` {g \<in> set gts. image_id g = i})
                        (class_score iou thr dets' gts i))
        = mean_set ?S (\<lambda>i. mean_set (category_id ` {g \<in> set gts. image_id g = i})
                        (class_score iou thr dets gts i))"
    unfolding mean_set_def by (intro arg_cong2 [where f = "(/)"] sum.cong refl) (simp_all add: score)
  then show "mAP iou dets' gts thr = mAP iou dets gts thr"
    by (simp only: mAP_formula)
qed

theorem mAP_mean_of_class_means_witness:
  "mAP same_box_iou
     [\<lparr>image_id = 0, category_id = 1, bbox = (0, 0, 2, 2)\<rparr>,
      \<lparr>image_id = 5, category_id = 1, bbox = (0, 0, 2, 2)\<rparr>]
     [\<lparr>image_id = 0, category_id = 1, bbox = (0, 0, 2, 2)\<rparr>,
      \<lparr>image_id = 0, category_id = 2, bbox = (3, 3, 4, 4)\<rparr>] (1/2)
   = mAP same_box_iou
     [\<lparr>image_id = 0, category_id = 1, bbox = (0, 0, 2, 2)\<rparr>]
     [\<lparr>image_id = 0, category_id = 1, bbox = (0, 0, 2, 2)\<rparr>,
      \<lparr>image_id = 0, category_id = 2, bbox = (3, 3, 4, 4)\<rparr>] (1/2)"
proof -
  let ?d0 = "\<lparr>image_id = 0, category_id = 1, bbox = (0, 0, 2, 2)\<rparr>"
  let ?d5 = "\<lparr>image_id = 5, category_id = 1, bbox = (0, 0, 2, 2)\<rparr>"
  let ?g2 = "\<lparr>image_id = 0, category_id = 2, bbox = (3, 3, 4, 4)\<rparr>"
  have "filter (\<lambda>d. image_id d \<in> image_id ` set [?d0, ?g2]) [?d0, ?d5]
        = filter (\<lambda>d. image_id d \<in> image_id ` set [?d0, ?g2]) [?d0]"
    by simp
  then show ?thesis
    using mAP_mean_of_class_means [where iou = same_box_iou and dets = "[?d0]"
        and gts = "[?d0, ?g2]" and thr = "1/2"]
    by blast
qed

lemma mAP_example:
  "mAP same_box_iou
     [\<lparr>image_id = 0, category_id = 1, bbox = (0, 0, 2, 2)\<rparr>]
     [\<lparr>image_id = 0, category_id = 1, bbox = (0, 0, 2, 2)\<rparr>,
      \<lparr>image_id = 0, category_id = 2, bbox = (3, 3, 4, 4)\<rparr>] (1/2) = Inr (Some (1/2))"
  by (simp add: mAP_def groupby_def image_AP_def class_AP_def AP_def AP_TP_def AP_step_def
      gt_ious_def py_max_def same_box_iou_def cumsum_def average_precision_def np_mean_def Let_def)

subsection \<open>Encoding and decoding of coordinates\<close>

lemma target_to_coords_row_inverse:
  assumes "0 < gw" "0 < gh" "0 < aw" "0 < ah"
  shows "target_to_coords_row (coords_to_target (gx, gy, gw, gh) (ax, ay, aw, ah)) (ax, ay, aw, ah)
         = (gx, gy, gw, gh)"
  using assms by (simp add: target_to_coords_row_def coords_to_target_def)

text \<open>
  C1.  Over the reals, for a ground-truth box and anchors of strictly positive width and
  height, decoding the output of \<open>coords_to_target\<close> against the same anchors with
  \<open>target_to_coords\<close> returns the ground-truth box, for every anchor.
\<close>

theorem target_to_coords_inverts_coords_to_target:
  assumes "0 < gw" and "0 < gh"
    and "\<forall>(ax, ay, aw, ah) \<in> set anchors. 0 < aw \<and> 0 < ah"
  shows "target_to_coords (map (coords_to_target (gx, gy, gw, gh)) anchors) anchors
         = replicate (length anchors) (gx, gy, gw, gh)"
  using assms(3)
proof (induction anchors)
  case Nil
  show ?case by (simp add: target_to_coords_def)
next
  case (Cons a anchors)
  obtain ax ay aw ah where a: "a = (ax, ay, aw, ah)" by (cases a)
  have "0 < aw" "0 < ah" using Cons.prems a by auto
  then have "target_to_coords_row (coords_to_target (gx, gy, gw, gh) a) a = (gx, gy, gw, gh)"
    unfolding a using assms(1,2) by (intro target_to_coords_row_inverse)
  moreover have "target_to_coords (map (coords_to_target (gx, gy, gw, gh)) anchors) anchors
         = replicate (length anchors) (gx, gy, gw, gh)"
    using Cons by simp
  ultimately show ?case by (simp add: target_to_coords_def)
qed

theorem target_to_coords_inverts_coords_to_target_witness:
  "target_to_coords (map (coords_to_target (3, 4, 2, 6)) [(1, 1, 2, 3), (0, 5, 4, 1/2)])
     [(1, 1, 2, 3), (0, 5, 4, 1/2)] = [(3, 4, 2, 6), (3, 4, 2, 6)]"
  using target_to_coords_inverts_coords_to_target
    [of 2 6 "[(1, 1, 2, 3), (0, 5, 4, 1/2)]" 3 4]
  by simp

subsection \<open>\<open>MultiBoxLoss.forward\<close> without positive anchors\<close>

lemma level_loss_no_positive:
  assumes "\<forall>c\<in>set cls_t. c = 0"
  shows "level_loss l self (loc_p, cls_p, loc_t, cls_t, ignore) = Inr None"
proof -
  have "filter id (map (\<lambda>c. c \<noteq> 0) cls_t) = []"
    using assms by (simp add: filter_empty_conv)
  then show ?thesis by (simp add: level_loss_def)
qed

lemma forward_loop_all_skipped:
  assumes "\<forall>lv\<in>set lvs. level_loss l self lv = Inr None"
  shows "forward_loop l self lvs acc = Inr acc"
  using assms
proof (induction lvs)
  case Nil
  show ?case by simp
next
  case (Cons lv lvs)
  obtain loc_loss cls_loss where acc: "acc = (loc_loss, cls_loss)" by (cases acc)
  from Cons show ?case by (simp add: acc)
qed

lemma levels_no_positive:
  assumes "\<forall>cls_t\<in>set cls_targets. \<forall>c\<in>set cls_t. c = 0"
    and "lv \<in> set (zip loc_preds (zip cls_preds (zip loc_targets (zip cls_targets igs))))"
  shows "level_loss l self lv = Inr None"
proof -
  obtain loc_p cls_p loc_t cls_t ignore where lv: "lv = (loc_p, cls_p, loc_t, cls_t, ignore)"
    by (cases lv) auto
  have "(cls_p, loc_t, cls_t, ignore) \<in> set (zip cls_preds (zip loc_targets (zip cls_targets igs)))"
    using assms(2) unfolding lv by (rule set_zip_rightD)
  then have "(loc_t, cls_t, ignore) \<in> set (zip loc_targets (zip cls_targets igs))"
    by (rule set_zip_rightD)
  then have "(cls_t, ignore) \<in> set (zip cls_targets igs)"
    by (rule set_zip_rightD)
  then have "cls_t \<in> set cls_targets"
    by (rule set_zip_leftD)
  then have "\<forall>c\<in>set cls_t. c = 0" using assms(1) by blast
  then show ?thesis unfolding lv by (rule level_loss_no_positive)
qed

text \<open>
  C9.  If every entry of every \<open>cls_target\<close> is 0 and \<open>p\<close> is 0, then \<open>forward\<close> returns
  the integer 0 it started from, whatever the predictions, the localisation targets and
  the ignore masks are: every level is skipped.
\<close>

theorem forward_without_positives:
  assumes "\<forall>cls_t\<in>set cls_targets. \<forall>c\<in>set cls_t. c = 0"
    and "p_print self = 0" and "0 \<le> rnd"
  shows "forward l self rnd loc_preds cls_preds loc_targets cls_targets ignores = Inr (PyInt 0)"
proof -
  define igs where "igs = (case ignores of None \<Rightarrow> replicate (length loc_preds) None | Some igs \<Rightarrow> igs)"
  let ?levels = "zip loc_preds (zip cls_preds (zip loc_targets (zip cls_targets igs)))"
  have "\<forall>lv\<in>set ?levels. level_loss l self lv = Inr None"
    using levels_no_positive [OF assms(1)] by blast
  then have "forward_loop l self ?levels (PyInt 0, PyInt 0) = Inr (PyInt 0, PyInt 0)"
    by (rule forward_loop_all_skipped)
  moreover have "\<not> rnd < p_print self" using assms(2,3) by simp
  ultimately show ?thesis
    by (simp add: forward_def igs_def [symmetric])
qed

theorem forward_without_positives_witness:
  "forward torch_lib \<lparr>neg_pos_ratio = Some 3, p_print = 0, criterion = F_cross_entropy\<rparr> (1/2)
     [[(1, 2, 3, 4), (0, 0, 1, 1)]] [[[3/10, 7/10], [2, 1]]] [[(0, 0, 0, 0), (0, 0, 0, 0)]] [[0, 0]] None
   = Inr (PyInt 0)"
  using forward_without_positives [of "[[0, 0]]"
      "\<lparr>neg_pos_ratio = Some 3, p_print = 0, criterion = F_cross_entropy\<rparr>" "1/2"]
  by simp

text \<open>
  With \<open>p > 0\<close> the same call can fail: when \<open>random.random() < p\<close>, the debug print
  asks the integer 0 for \<open>.item()\<close>.
\<close>

lemma forward_without_positives_print:
  assumes "\<forall>cls_t\<in>set cls_targets. \<forall>c\<in>set cls_t. c = 0"
    and "rnd < p_print self"
  shows "forward l self rnd loc_preds cls_preds loc_targets cls_targets ignores = Inl AttributeError"
proof -
  define igs where "igs = (case ignores of None \<Rightarrow> replicate (length loc_preds) None | Some igs \<Rightarrow> igs)"
  let ?levels = "zip loc_preds (zip cls_preds (zip loc_targets (zip cls_targets igs)))"
  have "\<forall>lv\<in>set ?levels. level_loss l self lv = Inr None"
    using levels_no_positive [OF assms(1)] by blast
  then have "forward_loop l self ?levels (PyInt 0, PyInt 0) = Inr (PyInt 0, PyInt 0)"
    by (rule forward_loop_all_skipped)
  then show ?thesis
    using assms(2) by (simp add: forward_def igs_def [symmetric] bind_err_def)
qed

subsection \<open>Hard negative mining\<close>

lemma sum_mset_le_take_desc:
  assumes "sorted_wrt (\<ge>) (zs :: real list)" and "M \<subseteq># mset zs"
  shows "sum_mset M \<le> sum_list (take (size M) zs)"
  using assms
proof (induction zs arbitrary: M)
  case Nil
  then show ?case by simp
next
  case (Cons z zs)
  show ?case
  proof (cases "M = {#}")
    case True
    then show ?thesis by simp
  next
    case False
    have desc: "sorted_wrt (\<ge>) zs" and zmax: "\<And>y. y \<in> set zs \<Longrightarrow> y \<le> z"
      using Cons.prems(1) by auto
    have sub: "M - {#z#} \<subseteq># mset zs"
      using Cons.prems(2) by (simp add: subset_eq_diff_conv)
    obtain k where k: "size M = Suc k"
      using False by (cases "size M") auto
    show ?thesis
    proof (cases "z \<in># M")
      case True
      have "size (M - {#z#}) = k" using True k by (simp add: size_Diff_singleton)
      moreover have "sum_mset M = z + sum_mset (M - {#z#})"
        using True by (metis insert_DiffM sum_mset.add_mset)
      moreover have "sum_mset (M - {#z#}) \<le> sum_list (take (size (M - {#z#})) zs)"
        using desc sub by (rule Cons.IH)
      ultimately show ?thesis using k by simp
    next
      case notin: False
      obtain y M' where M: "M = add_mset y M'"
        using False by (meson multiset_cases)
      have "M \<subseteq># mset zs" using sub notin by simp
      then have "y \<in> set zs" and M': "M' \<subseteq># mset zs"
        unfolding M
        by (auto simp: insert_subset_eq_iff intro: subset_mset.order_trans [OF _ diff_subset_eq_self])
      have "size M' = k" using k M by simp
      moreover have "sum_mset M' \<le> sum_list (take (size M') zs)"
        using desc M' by (rule Cons.IH)
      moreover have "y \<le> z" using \<open>y \<in> set zs\<close> by (rule zmax)
      ultimately show ?thesis using k M by simp
    qed
  qed
qed

lemma topk_sum_greatest:
  fixes xs ys :: "real list"
  assumes "mset ys \<subseteq># mset xs"
  shows "sum_list ys \<le> sum_list (take (length ys) (rev (sort xs)))"
proof -
  have "sorted_wrt (\<ge>) (rev (sort xs))"
    by (simp add: sorted_wrt_rev)
  moreover have "mset ys \<subseteq># mset (rev (sort xs))" using assms by simp
  ultimately have "sum_mset (mset ys) \<le> sum_list (take (size (mset ys)) (rev (sort xs)))"
    by (rule sum_mset_le_take_desc)
  then show ?thesis by (simp add: sum_mset_sum_list)
qed

lemma topk_sub_mset:
  fixes xs :: "real list"
  shows "mset (take k (rev (sort xs))) \<subseteq># mset xs"
proof -
  have "mset (take k (rev (sort xs))) \<subseteq># mset (rev (sort xs))"
    by (metis append_take_drop_id mset_append mset_subset_eq_add_left)
  then show ?thesis by simp
qed

lemma zip_nth_upt:
  assumes "length ys = length xs"
  shows "zip xs ys = map (\<lambda>i. (xs ! i, ys ! i)) [0..<length xs]"
  using assms by (intro nth_equalityI) simp_all

lemma index_mask_nth:
  assumes "length msk = length t"
  shows "index_mask t msk = Inr (map (nth t) (filter (nth msk) [0..<length t]))"
proof -
  have "map fst (filter snd (zip t msk)) = map (nth t) (filter (nth msk) [0..<length t])"
    by (simp add: zip_nth_upt [OF assms] filter_map comp_def)
  then show ?thesis using assms by (simp add: index_mask_def)
qed

lemma filter_nth_upt:
  "filter P xs = map (nth xs) (filter (\<lambda>j. P (xs ! j)) [0..<length xs])"
proof -
  have "filter P (map (nth xs) [0..<length xs])
        = map (nth xs) (filter (\<lambda>j. P (xs ! j)) [0..<length xs])"
    by (simp add: filter_map comp_def)
  then show ?thesis by (simp add: map_nth)
qed

lemma filter_upt_cong:
  assumes "\<And>j. j < n \<Longrightarrow> P j = Q j"
  shows "filter P [0..<n] = filter Q [0..<n]"
  using assms by (intro filter_cong) simp_all

lemma hard_negative_loss_value:
  fixes cls_p :: "real list list" and cls_t :: "int list" and ignore :: "bool list option"
  defines "N \<equiv> length cls_t"
  defines "P \<equiv> filter (\<lambda>j. cls_t ! j \<noteq> 0) [0..<N]"
  defines "C \<equiv> filter (\<lambda>j. cls_t ! j = 0 \<and> \<not> (case ignore of None \<Rightarrow> False | Some ig \<Rightarrow> ig ! j)) [0..<N]"
  defines "cands \<equiv> map (\<lambda>j. neg_log_softmax_0 (cls_p ! j)) C"
  assumes len: "length cls_p = length cls_t"
    and ig: "\<forall>ig. ignore = Some ig \<longrightarrow> length ig = length cls_t"
    and rows: "\<forall>row\<in>set cls_p. row \<noteq> []"
  shows "hard_negative_loss l crit ratio (map (\<lambda>c. c \<noteq> 0) cls_t) num_pos cls_p cls_t ignore
         = Inr ((criterion_sum l crit (map (nth cls_p) P) (map (\<lambda>j. Label (cls_t ! j)) P)
                 + sum_list (take (min (ratio * num_pos) (length C)) (rev (sort cands))))
                / real num_pos)"
proof -
  let ?pos = "map (\<lambda>c. c \<noteq> 0) cls_t"
  have posP: "filter (nth ?pos) [0..<N] = P"
    unfolding P_def by (rule filter_upt_cong) (simp add: N_def)
  have m1: "index_mask cls_p ?pos = Inr (map (nth cls_p) P)"
    using index_mask_nth [of ?pos cls_p] len posP by (simp add: N_def)
  have m2: "index_mask cls_t ?pos = Inr (map (nth cls_t) P)"
    using index_mask_nth [of ?pos cls_t] posP by (simp add: N_def)
  obtain m where m: "(case ignore of None \<Rightarrow> Inr (map Not ?pos)
                       | Some ig \<Rightarrow> mask_and (map Not ?pos) (map Not ig)) = Inr m"
    and lenm: "length m = N"
    and mnth: "\<And>j. j < N \<Longrightarrow> m ! j \<longleftrightarrow>
                 cls_t ! j = 0 \<and> \<not> (case ignore of None \<Rightarrow> False | Some ig \<Rightarrow> ig ! j)"
  proof (cases ignore)
    case None
    show ?thesis
      by (rule that [of "map Not ?pos"]) (simp_all add: None N_def)
  next
    case (Some ig)
    then have l: "length ig = length cls_t" using ig by simp
    show ?thesis
      by (rule that [of "map (\<lambda>(x, y). x \<and> y) (zip (map Not ?pos) (map Not ig))"])
        (simp_all add: Some mask_and_def l N_def)
  qed
  have mC: "filter (nth m) [0..<N] = C"
    unfolding C_def by (rule filter_upt_cong) (rule mnth)
  have m3: "index_mask cls_p m = Inr (map (nth cls_p) C)"
    using index_mask_nth [of m cls_p] len lenm mC by (simp add: N_def)
  have m4: "neg_log_softmax_bg cls_p (map (nth cls_p) C) = Inr cands"
    using rows by (simp add: neg_log_softmax_bg_def cands_def comp_def)
  have lc: "length cands = length C" by (simp add: cands_def)
  have m5: "topk cands (min (ratio * num_pos) (length C))
            = Inr (take (min (ratio * num_pos) (length C)) (rev (sort cands)))"
    by (simp add: topk_def lc)
  show ?thesis
    by (simp add: hard_negative_loss_def bind_err_def m1 m2 m m3 m4 m5 Let_def lc comp_def)
qed

lemma num_pos_positives:
  "length (filter id (map (\<lambda>c. c \<noteq> 0) cls_t)) = length (positives cls_t)"
proof -
  have "length (filter id (map (\<lambda>c. c \<noteq> 0) cls_t)) = length (filter (\<lambda>c. c \<noteq> 0) cls_t)"
    by (simp add: filter_map comp_def)
  also have "\<dots> = length (positives cls_t)"
    unfolding positives_def by (subst filter_nth_upt) simp
  finally show ?thesis .
qed

lemma positives_nonempty:
  assumes "\<exists>c\<in>set cls_t. c \<noteq> 0"
  shows "positives cls_t \<noteq> []"
proof -
  from assms obtain j where "j < length cls_t" "cls_t ! j \<noteq> 0"
    by (auto simp: in_set_conv_nth)
  then show ?thesis by (auto simp: positives_def filter_empty_conv)
qed

text \<open>
  C4.  With \<open>neg_pos_ratio\<close> set, a level with at least one positive anchor (and tensors
  of matching shapes, with at least the background class) adds to \<open>cls_loss\<close> the sum of
  the criterion over the positive anchors plus the sum of the \<open>k\<close> largest background
  negative-log-softmax values among the anchors that are neither positive nor ignored,
  divided by the number of positives, where \<open>k\<close> is the minimum of
  \<open>neg_pos_ratio * num_pos\<close> and the number of those anchors.  The \<open>k\<close> values chosen
  are among the candidates' values, and no \<open>k\<close> of the candidates have a greater sum.
\<close>

theorem hard_negative_mining_level_loss:
  fixes cls_p :: "real list list" and cls_t :: "int list" and ignore :: "bool list option"
    and ratio :: nat
  defines "num_pos \<equiv> length (positives cls_t)"
  defines "k \<equiv> min (ratio * num_pos) (length (candidates cls_t ignore))"
  defines "hardest \<equiv> take k (rev (sort (candidate_losses cls_p cls_t ignore)))"
  assumes "neg_pos_ratio self = Some ratio" and "ratio \<noteq> 0"
    and "\<exists>c\<in>set cls_t. c \<noteq> 0"
    and "length cls_p = length cls_t" and "length loc_t = length cls_t"
    and "\<forall>ig. ignore = Some ig \<longrightarrow> length ig = length cls_t"
    and "\<forall>row\<in>set cls_p. row \<noteq> []"
  shows "(\<exists>loc_inc. level_loss l self (loc_p, cls_p, loc_t, cls_t, ignore)
            = Inr (Some (loc_inc,
                (positive_loss l (criterion self) cls_p cls_t + sum_list hardest) / real num_pos)))
       \<and> length hardest = k
       \<and> mset hardest \<subseteq># mset (candidate_losses cls_p cls_t ignore)
       \<and> (\<forall>ys. mset ys \<subseteq># mset (candidate_losses cls_p cls_t ignore) \<and> length ys = k
                 \<longrightarrow> sum_list ys \<le> sum_list hardest)"
proof (intro conjI allI impI)
  let ?pos = "map (\<lambda>c. c \<noteq> 0) cls_t"
  have np: "length (filter id ?pos) = num_pos"
    unfolding num_pos_def by (rule num_pos_positives)
  have np0: "num_pos \<noteq> 0"
    unfolding num_pos_def using positives_nonempty [OF assms(6)] by simp
  obtain loc_inc where loc:
    "(if length loc_p \<noteq> length ?pos
      then Inr (smooth_l1_loss l loc_p loc_t / real num_pos)
      else bind_err (index_mask loc_p ?pos) (\<lambda>loc_p_pos.
           bind_err (index_mask loc_t ?pos) (\<lambda>loc_t_pos.
             Inr (smooth_l1_loss l loc_p_pos loc_t_pos / real num_pos)))) = Inr loc_inc"
    using assms(8) by (cases "length loc_p \<noteq> length ?pos") (simp_all add: index_mask_def bind_err_def)
  have hard: "hard_negative_loss l (criterion self) ratio ?pos num_pos cls_p cls_t ignore
        = Inr ((positive_loss l (criterion self) cls_p cls_t + sum_list hardest) / real num_pos)"
    unfolding hardest_def k_def positive_loss_def candidate_losses_def candidates_def positives_def
    by (rule hard_negative_loss_value [OF assms(7,9,10)])
  have "level_loss l self (loc_p, cls_p, loc_t, cls_t, ignore)
        = Inr (Some (loc_inc,
             (positive_loss l (criterion self) cls_p cls_t + sum_list hardest) / real num_pos))"
    unfolding level_loss_def prod.case Let_def np
    by (simp only: np0 assms(4,5) if_False if_True loc [unfolded bind_err_def] hard bind_err_def
        sum.case option.case simp_thms)
  then show "\<exists>loc_inc. level_loss l self (loc_p, cls_p, loc_t, cls_t, ignore)
            = Inr (Some (loc_inc,
                (positive_loss l (criterion self) cls_p cls_t + sum_list hardest) / real num_pos))"
    by blast
next
  show "length hardest = k"
    by (simp add: hardest_def k_def candidate_losses_def)
next
  show "mset hardest \<subseteq># mset (candidate_losses cls_p cls_t ignore)"
    unfolding hardest_def by (rule topk_sub_mset)
next
  fix ys assume "mset ys \<subseteq># mset (candidate_losses cls_p cls_t ignore) \<and> length ys = k"
  then show "sum_list ys \<le> sum_list hardest"
    unfolding hardest_def using topk_sum_greatest [of ys "candidate_losses cls_p cls_t ignore"]
    by simp
qed

theorem hard_negative_mining_level_loss_witness:
  "\<exists>loc_inc.
     level_loss torch_lib \<lparr>neg_pos_ratio = Some 1, p_print = 0, criterion = F_cross_entropy\<rparr>
       ([(0, 0, 0, 0), (0, 0, 0, 0), (0, 0, 0, 0)], [[0, 1], [1, 0], [0, 0]],
        [(1, 1, 0, 0), (0, 0, 0, 0), (0, 0, 0, 0)], [1, 0, 0], Some [False, False, True])
     = Inr (Some (loc_inc,
         (cross_entropy_row [0, 1] (Label 1) + neg_log_softmax_0 [1, 0]) / 1))"
proof -
  have p: "positives [1, 0, 0] = [0]"
    by (simp add: positives_def upt_rec)
  have c: "candidates [1, 0, 0] (Some [False, False, True]) = [1]"
    by (simp add: candidates_def upt_rec)
  have cl: "candidate_losses [[0, 1], [1, 0], [0, 0]] [1, 0, 0] (Some [False, False, True])
            = [neg_log_softmax_0 [1, 0]]"
    by (simp add: candidate_losses_def c)
  have pl: "positive_loss torch_lib F_cross_entropy [[0, 1], [1, 0], [0, 0]] [1, 0, 0]
            = cross_entropy_row [0, 1] (Label 1)"
    by (simp add: positive_loss_def p criterion_sum_def torch_lib_def)
  show ?thesis
    using hard_negative_mining_level_loss [where l = torch_lib
        and self = "\<lparr>neg_pos_ratio = Some 1, p_print = 0, criterion = F_cross_entropy\<rparr>"
        and ratio = 1 and cls_t = "[1, 0, 0]" and cls_p = "[[0, 1], [1, 0], [0, 0]]"
        and loc_t = "[(1, 1, 0, 0), (0, 0, 0, 0), (0, 0, 0, 0)]"
        and loc_p = "[(0, 0, 0, 0), (0, 0, 0, 0), (0, 0, 0, 0)]"
        and ignore = "Some [False, False, True]"]
    by (simp add: p c cl pl del: cross_entropy_row.simps)
qed

subsection \<open>The anchor of maximal IoU in \<open>MultiLevelAnchorMatching\<close>\<close>

lemma max_loop_mem: "max_loop key b xs \<in> set (b # xs)"
  by (induction xs arbitrary: b) auto

lemma max_loop_map:
  "max_loop snd (i, k x) (map (\<lambda>(i, x). (i, k x)) ys)
     = (\<lambda>(i, x). (i, k x)) (max_loop (\<lambda>p. k (snd p)) (i, x) ys)"
proof (induction ys arbitrary: i x)
  case Nil
  show ?case by simp
next
  case (Cons y ys)
  obtain i' x' where y: "y = (i', x')" by (cases y)
  show ?case using Cons.IH [of i' x'] Cons.IH [of i x] by (simp add: y)
qed

lemma enumerate_map_snd:
  "enumerate n (map k xs) = map (\<lambda>(i, x). (i, k x)) (enumerate n xs)"
  by (induction xs arbitrary: n) simp_all

lemma py_max_enumerate_key:
  assumes "xs \<noteq> []"
  shows "\<exists>j. py_max (\<lambda>p. k (snd p)) (enumerate 0 xs) = Inr (j, xs ! j)
            \<and> is_first_max (map k xs) j"
proof -
  obtain x rest where xs: "xs = x # rest" using assms by (cases xs) auto
  let ?r = "max_loop (\<lambda>p. k (snd p)) (0, x) (enumerate (Suc 0) rest)"
  have "map k xs \<noteq> []" using assms by simp
  from py_max_enumerate [OF this] obtain j where
    j: "py_max snd (enumerate 0 (map k xs)) = Inr (j, map k xs ! j)" "is_first_max (map k xs) j"
    by blast
  have "py_max snd (enumerate 0 (map k xs)) = Inr ((\<lambda>(i, x). (i, k x)) ?r)"
    unfolding xs by (simp add: py_max_def enumerate_map_snd max_loop_map)
  with j(1) have fst: "fst ?r = j" by (cases ?r) simp
  have "?r \<in> set (enumerate 0 xs)"
    using max_loop_mem [of "\<lambda>p. k (snd p)" "(0, x)" "enumerate (Suc 0) rest"] unfolding xs by simp
  then have "xs ! (fst ?r - 0) = snd ?r"
    unfolding in_set_enumerate_eq by blast
  with fst have "?r = (j, xs ! j)" by (simp add: prod_eq_iff)
  then have "py_max (\<lambda>p. k (snd p)) (enumerate 0 xs) = Inr (j, xs ! j)"
    unfolding xs by (simp add: py_max_def)
  with j(2) show ?thesis by blast
qed

lemma torch_max_first:
  assumes "xs \<noteq> []"
  shows "\<exists>j. torch_max xs = Inr (xs ! j, j) \<and> is_first_max xs j"
proof -
  from py_max_enumerate [OF assms] obtain j where
    "py_max snd (enumerate 0 xs) = Inr (j, xs ! j)" "is_first_max xs j" by blast
  then show ?thesis by (auto simp: torch_max_def)
qed

lemma length_assign_mask [simp]: "length (assign_mask xs ms vs) = length xs"
  by (induction xs ms vs rule: assign_mask.induct) (auto split: list.splits)

lemma length_fill_mask: "length msk = length t \<Longrightarrow> length (fill_mask t msk v) = length t"
  by (simp add: fill_mask_def)

lemma fill_mask_nth:
  assumes "length msk = length t" and "j < length t"
  shows "fill_mask t msk v ! j = (if msk ! j then v else t ! j)"
  using assms by (simp add: fill_mask_def)

lemma assign_mask_nth:
  assumes "length xs = length ms" and "length ms = length as" and "j < length xs"
  shows "assign_mask xs ms (map f (select_mask as ms)) ! j = (if ms ! j then f (as ! j) else xs ! j)"
  using assms
proof (induction xs ms as arbitrary: j rule: list_induct3)
  case Nil
  then show ?case by simp
next
  case (Cons x xs m ms a as)
  show ?case
  proof (cases j)
    case 0
    then show ?thesis by (simp add: select_mask_def)
  next
    case (Suc j')
    then have "j' < length xs" using Cons.prems by simp
    from Cons.IH [OF this] show ?thesis
      by (simp add: Suc select_mask_def)
  qed
qed

lemma init_targets_ok: "list_all2 level_ok levels (init_targets levels neg_th)"
  unfolding init_targets_def list_all2_map2
  by (rule list_all2_refl) (auto simp: level_ok_def flat_anchors_def)

lemma match_level_ok:
  assumes "flat_anchors lvl \<noteq> []" and "level_ok lvl tg"
  shows "\<exists>j tg'. match_level iou self label gt_box (lvl, tg)
                    = Inr ((map (iou gt_box) (flat_anchors lvl) ! j, j), tg')
               \<and> level_ok lvl tg'
               \<and> is_first_max (map (iou gt_box) (flat_anchors lvl)) j"
proof -
  obtain lx ly anchors where lvl: "lvl = (lx, ly, anchors)" by (cases lvl)
  obtain loc_t cls_t neg where tg: "tg = (loc_t, cls_t, neg)" by (cases tg)
  have ne: "map (iou gt_box) anchors \<noteq> []"
    using assms(1) by (simp add: lvl flat_anchors_def)
  from torch_max_first [OF this] obtain j where
    j: "torch_max (map (iou gt_box) anchors) = Inr (map (iou gt_box) anchors ! j, j)"
       "is_first_max (map (iou gt_box) anchors) j" by blast
  have len: "length loc_t = length anchors" "length cls_t = length anchors"
    using assms(2) by (simp_all add: lvl tg level_ok_def flat_anchors_def)
  show ?thesis
    using j len
    by (auto simp: lvl tg match_level_def bind_err_def Let_def level_ok_def flat_anchors_def
        length_fill_mask split: prod.splits)
qed

lemma match_levels_ok:
  assumes "list_all2 level_ok levels targets"
    and "\<forall>lvl\<in>set levels. flat_anchors lvl \<noteq> []"
  shows "\<exists>max_ious tgs.
           match_levels iou self label gt_box (zip levels targets) = Inr (max_ious, tgs)
         \<and> list_all2 level_ok levels tgs
         \<and> length max_ious = length levels
         \<and> (\<forall>f<length levels.
               fst (max_ious ! f) = map (iou gt_box) (flat_anchors (levels ! f)) ! snd (max_ious ! f)
             \<and> is_first_max (map (iou gt_box) (flat_anchors (levels ! f))) (snd (max_ious ! f)))"
  using assms
proof (induction rule: list_all2_induct)
  case Nil
  show ?case by simp
next
  case (Cons lvl levels tg targets)
  from match_level_ok [where lvl = lvl and tg = tg and iou = iou and gt_box = gt_box
      and self = self and label = label] Cons.hyps(1) Cons.prems
  obtain j tg' where
    one: "match_level iou self label gt_box (lvl, tg)
            = Inr ((map (iou gt_box) (flat_anchors lvl) ! j, j), tg')"
    and ok: "level_ok lvl tg'"
    and fm: "is_first_max (map (iou gt_box) (flat_anchors lvl)) j" by auto
  from Cons.IH Cons.prems obtain max_ious tgs where
    rest: "match_levels iou self label gt_box (zip levels targets) = Inr (max_ious, tgs)"
    and oks: "list_all2 level_ok levels tgs"
    and len: "length max_ious = length levels"
    and fms: "\<forall>f<length levels.
               fst (max_ious ! f) = map (iou gt_box) (flat_anchors (levels ! f)) ! snd (max_ious ! f)
             \<and> is_first_max (map (iou gt_box) (flat_anchors (levels ! f))) (snd (max_ious ! f))"
    by auto
  let ?mx = "(map (iou gt_box) (flat_anchors lvl) ! j, j)"
  have "match_levels iou self label gt_box (zip (lvl # levels) (tg # targets))
          = Inr (?mx # max_ious, tg' # tgs)"
    by (simp add: one rest bind_err_def)
  moreover have "list_all2 level_ok (lvl # levels) (tg' # tgs)"
    using ok oks by simp
  moreover have "length (?mx # max_ious) = length (lvl # levels)"
    using len by simp
  moreover have "\<forall>f<length (lvl # levels).
       fst ((?mx # max_ious) ! f)
         = map (iou gt_box) (flat_anchors ((lvl # levels) ! f)) ! snd ((?mx # max_ious) ! f)
     \<and> is_first_max (map (iou gt_box) (flat_anchors ((lvl # levels) ! f))) (snd ((?mx # max_ious) ! f))"
  proof (intro allI impI)
    fix f assume "f < length (lvl # levels)"
    then show "fst ((?mx # max_ious) ! f)
         = map (iou gt_box) (flat_anchors ((lvl # levels) ! f)) ! snd ((?mx # max_ious) ! f)
     \<and> is_first_max (map (iou gt_box) (flat_anchors ((lvl # levels) ! f))) (snd ((?mx # max_ious) ! f))"
      using fm fms by (cases f) simp_all
  qed
  ultimately show ?case by blast
qed

lemma match_ann_steps:
  assumes ne: "anchors_of_level self \<noteq> []"
    and anchors: "\<forall>lvl\<in>set (anchors_of_level self). flat_anchors lvl \<noteq> []"
    and ok: "list_all2 level_ok (anchors_of_level self) targets"
  shows "\<exists>max_ious tgs f_i ind.
           match_levels iou self (get_label self ann) (ltwh_to_xywh (get_bbox self ann))
             (zip (anchors_of_level self) targets) = Inr (max_ious, tgs)
         \<and> list_all2 level_ok (anchors_of_level self) tgs
         \<and> is_max_iou_anchor iou self ann f_i ind
         \<and> match_ann iou self ann targets
             = Inr (tgs[f_i := ((fst (tgs ! f_i))
                                  [ind := coords_to_target_fn self (ltwh_to_xywh (get_bbox self ann))
                                            (flat_anchors (anchors_of_level self ! f_i) ! ind)
                                            (location (anchors_of_level self ! f_i))],
                                (fst (snd (tgs ! f_i)))[ind := get_label self ann],
                                snd (snd (tgs ! f_i)))])"
proof -
  let ?levels = "anchors_of_level self"
  let ?label = "get_label self ann"
  let ?gt = "ltwh_to_xywh (get_bbox self ann)"
  let ?ious = "\<lambda>f. map (iou ?gt) (flat_anchors (?levels ! f))"
  from match_levels_ok [OF ok anchors, of iou self ?label ?gt]
  obtain max_ious tgs where
    ml: "match_levels iou self ?label ?gt (zip ?levels targets) = Inr (max_ious, tgs)"
    and oks: "list_all2 level_ok ?levels tgs"
    and len: "length max_ious = length ?levels"
    and fms: "\<And>f. f < length ?levels \<Longrightarrow>
               fst (max_ious ! f) = ?ious f ! snd (max_ious ! f)
             \<and> is_first_max (?ious f) (snd (max_ious ! f))"
    by blast
  have "max_ious \<noteq> []" using len ne by auto
  from py_max_enumerate_key [OF this, of fst] obtain f_i where
    pm: "py_max (\<lambda>p. fst (snd p)) (enumerate 0 max_ious) = Inr (f_i, max_ious ! f_i)"
    and ffm: "is_first_max (map fst max_ious) f_i" by blast
  have f_i: "f_i < length ?levels"
    using ffm len by (simp add: is_first_max_def)
  define ind where "ind = snd (max_ious ! f_i)"
  define best where "best = fst (max_ious ! f_i)"
  have mx: "max_ious ! f_i = (best, ind)" by (simp add: ind_def best_def)
  have ind_fm: "is_first_max (?ious f_i) ind" and best: "best = ?ious f_i ! ind"
    using fms [OF f_i] by (simp_all add: ind_def best_def)
  have ind: "ind < length (flat_anchors (?levels ! f_i))"
    using ind_fm by (simp add: is_first_max_def)
  have best_iou: "best = iou ?gt (flat_anchors (?levels ! f_i) ! ind)"
    using best ind by simp
  obtain lx ly anchors where lvl: "?levels ! f_i = (lx, ly, anchors)" by (cases "?levels ! f_i")
  obtain loc_t cls_t neg where tg: "tgs ! f_i = (loc_t, cls_t, neg)" by (cases "tgs ! f_i")
  have lentgs: "length tgs = length ?levels"
    using oks by (simp add: list_all2_lengthD)
  have okf: "level_ok (?levels ! f_i) (tgs ! f_i)"
    using oks f_i by (simp add: list_all2_nthD)
  then have lens: "length loc_t = length anchors" "length cls_t = length anchors"
    by (simp_all add: level_ok_def lvl tg flat_anchors_def)
  have anch: "flat_anchors (?levels ! f_i) = anchors" "location (?levels ! f_i) = (lx, ly)"
    by (simp_all add: lvl flat_anchors_def location_def)
  let ?new = "(loc_t[ind := coords_to_target_fn self ?gt (anchors ! ind) (lx, ly)],
               cls_t[ind := ?label], neg)"
  let ?targets' = "tgs[f_i := ?new]"
  have res: "match_ann iou self ann targets = Inr ?targets'"
    by (simp add: match_ann_def Let_def ml pm mx lvl tg bind_err_def)
  have le_max: "?ious f ! k \<le> fst (max_ious ! f)"
    if "f < length ?levels" and "k < length (flat_anchors (?levels ! f))" for f k
  proof -
    have "is_first_max (?ious f) (snd (max_ious ! f))"
      and "fst (max_ious ! f) = ?ious f ! snd (max_ious ! f)"
      using fms [OF that(1)] by simp_all
    moreover have "k < length (?ious f)" using that(2) by simp
    ultimately show ?thesis unfolding is_first_max_def by metis
  qed
  have lvl_le: "fst (max_ious ! f) \<le> best" if "f < length ?levels" for f
  proof -
    have "f < length (map fst max_ious)" using that len by simp
    then have "map fst max_ious ! f \<le> map fst max_ious ! f_i"
      using ffm unfolding is_first_max_def by metis
    then show ?thesis using that f_i len by (simp add: best_def)
  qed
  have lvl_lt: "fst (max_ious ! f) < best" if "f < f_i" for f
  proof -
    have "map fst max_ious ! f < map fst max_ious ! f_i"
      using ffm that unfolding is_first_max_def by metis
    then show ?thesis using that f_i len by (simp add: best_def)
  qed
  have upper: "iou ?gt (flat_anchors (?levels ! f) ! k) \<le> best"
    if f: "f < length ?levels" and k: "k < length (flat_anchors (?levels ! f))" for f k
    using le_max [OF f k] lvl_le [OF f] k by simp
  have first: "f_i < f \<or> (f_i = f \<and> ind \<le> k)"
    if f: "f < length ?levels" and k: "k < length (flat_anchors (?levels ! f))"
      and eq: "iou ?gt (flat_anchors (?levels ! f) ! k) = best" for f k
  proof -
    have kf: "?ious f ! k = best" using eq k by simp
    have lvlmax: "fst (max_ious ! f) = best"
      using le_max [OF f k] lvl_le [OF f] kf by simp
    have nlt: "\<not> f < f_i"
      using lvl_lt [of f] lvlmax by auto
    show ?thesis
    proof (cases "f = f_i")
      case True
      have "\<not> k < ind"
      proof
        assume "k < ind"
        then have "?ious f_i ! k < ?ious f_i ! ind"
          using ind_fm unfolding is_first_max_def by metis
        then show False using kf best True by simp
      qed
      then show ?thesis using True by simp
    next
      case False
      then show ?thesis using nlt by simp
    qed
  qed
  have "is_max_iou_anchor iou self ann f_i ind"
    unfolding is_max_iou_anchor_def anchor_iou_def Let_def
    using f_i ind upper first best_iou
    by auto
  moreover have "match_ann iou self ann targets
      = Inr (tgs[f_i := ((fst (tgs ! f_i))
                           [ind := coords_to_target_fn self ?gt (flat_anchors (?levels ! f_i) ! ind)
                                     (location (?levels ! f_i))],
                         (fst (snd (tgs ! f_i)))[ind := ?label],
                         snd (snd (tgs ! f_i)))])"
    using res by (simp add: tg anch)
  ultimately show ?thesis using ml oks by blast
qed

lemma is_max_iou_anchor_unique:
  assumes "is_max_iou_anchor iou self ann f k" and "is_max_iou_anchor iou self ann f' k'"
  shows "f = f' \<and> k = k'"
proof -
  let ?levels = "anchors_of_level self"
  have b: "f < length ?levels" "k < length (flat_anchors (?levels ! f))"
    "f' < length ?levels" "k' < length (flat_anchors (?levels ! f'))"
    using assms by (simp_all add: is_max_iou_anchor_def Let_def)
  have "anchor_iou iou self ann f' k' \<le> anchor_iou iou self ann f k"
    using assms(1) b(3,4) unfolding is_max_iou_anchor_def Let_def by blast
  moreover have "anchor_iou iou self ann f k \<le> anchor_iou iou self ann f' k'"
    using assms(2) b(1,2) unfolding is_max_iou_anchor_def Let_def by blast
  ultimately have eq: "anchor_iou iou self ann f k = anchor_iou iou self ann f' k'" by simp
  have "f < f' \<or> (f = f' \<and> k \<le> k')"
    using assms(1) b(3,4) eq unfolding is_max_iou_anchor_def Let_def by metis
  moreover have "f' < f \<or> (f' = f \<and> k' \<le> k)"
    using assms(2) b(1,2) eq unfolding is_max_iou_anchor_def Let_def by metis
  ultimately show ?thesis by auto
qed

lemma match_level_effect:
  assumes res: "match_level iou self label gt_box (lvl, tg) = Inr (mx, tg')"
    and ok: "level_ok lvl tg"
    and k: "k < length (flat_anchors lvl)"
  shows "if truthy (pos_thresh self) \<and> iou gt_box (flat_anchors lvl ! k) > the (pos_thresh self)
         then fst (snd tg') ! k = label
            \<and> fst tg' ! k = coords_to_target_fn self gt_box (flat_anchors lvl ! k) (location lvl)
         else fst (snd tg') ! k = fst (snd tg) ! k \<and> fst tg' ! k = fst tg ! k"
proof -
  obtain lx ly anchors where lvl: "lvl = (lx, ly, anchors)" by (cases lvl)
  obtain loc_t cls_t neg where tg: "tg = (loc_t, cls_t, neg)" by (cases tg)
  have len: "length loc_t = length anchors" "length cls_t = length anchors"
    using ok by (simp_all add: lvl tg level_ok_def flat_anchors_def)
  have k': "k < length anchors" using k by (simp add: lvl flat_anchors_def)
  let ?ious = "map (iou gt_box) anchors"
  let ?pos = "map (\<lambda>v. v > the (pos_thresh self)) ?ious"
  let ?enc = "\<lambda>a. coords_to_target_fn self gt_box a (lx, ly)"
  have posk: "?pos ! k \<longleftrightarrow> iou gt_box (anchors ! k) > the (pos_thresh self)"
    using k' by simp
  have a: "flat_anchors lvl = anchors" "location lvl = (lx, ly)"
    by (simp_all add: lvl flat_anchors_def location_def)
  show ?thesis
  proof (cases "truthy (pos_thresh self) \<and> (\<exists>b\<in>set ?pos. b)")
    case True
    then have tg': "fst tg' = assign_mask loc_t ?pos (map ?enc (select_mask anchors ?pos))"
      "fst (snd tg') = fill_mask cls_t ?pos label"
      using res
      by (auto simp: lvl tg match_level_def bind_err_def Let_def split: sum.splits)
    have "fst tg' ! k = (if ?pos ! k then ?enc (anchors ! k) else loc_t ! k)"
      unfolding tg' using len k' by (intro assign_mask_nth) simp_all
    moreover have "fst (snd tg') ! k = (if ?pos ! k then label else cls_t ! k)"
      unfolding tg' using len k' by (intro fill_mask_nth) simp_all
    ultimately show ?thesis
      using True posk by (simp add: a tg)
  next
    case False
    then have tg': "fst tg' = loc_t" "fst (snd tg') = cls_t"
      using res
      by (auto simp: lvl tg match_level_def bind_err_def Let_def split: sum.splits if_splits)
    have "\<not> (truthy (pos_thresh self) \<and> ?pos ! k)"
      using False k' by (metis length_map nth_mem)
    then have "\<not> (truthy (pos_thresh self)
                 \<and> iou gt_box (anchors ! k) > the (pos_thresh self))"
      using posk by simp
    then show ?thesis
      by (simp only: a tg tg' fst_conv snd_conv if_False simp_thms)
  qed
qed

lemma match_levels_effect:
  assumes "list_all2 level_ok levels targets"
    and "match_levels iou self label gt_box (zip levels targets) = Inr (max_ious, tgs)"
    and "f < length levels" and "k < length (flat_anchors (levels ! f))"
  shows "if truthy (pos_thresh self) \<and> iou gt_box (flat_anchors (levels ! f) ! k) > the (pos_thresh self)
         then fst (snd (tgs ! f)) ! k = label
            \<and> fst (tgs ! f) ! k
                = coords_to_target_fn self gt_box (flat_anchors (levels ! f) ! k) (location (levels ! f))
         else fst (snd (tgs ! f)) ! k = fst (snd (targets ! f)) ! k
            \<and> fst (tgs ! f) ! k = fst (targets ! f) ! k"
  using assms
proof (induction arbitrary: max_ious tgs f rule: list_all2_induct)
  case Nil
  then show ?case by simp
next
  case (Cons lvl levels tg targets)
  from Cons.prems(1) obtain mx tg' mxs tgs' where
    one: "match_level iou self label gt_box (lvl, tg) = Inr (mx, tg')"
    and rest: "match_levels iou self label gt_box (zip levels targets) = Inr (mxs, tgs')"
    and tgs: "tgs = tg' # tgs'"
    by (auto simp: bind_err_def split: sum.splits prod.splits)
  show ?case
  proof (cases f)
    case 0
    then have "k < length (flat_anchors lvl)" using Cons.prems(3) by simp
    from match_level_effect [OF one Cons.hyps(1) this] show ?thesis
      by (simp add: 0 tgs)
  next
    case (Suc f')
    then have "f' < length levels" "k < length (flat_anchors (levels ! f'))"
      using Cons.prems(2,3) by simp_all
    from Cons.IH [OF rest this] show ?thesis
      by (simp add: Suc tgs)
  qed
qed

lemma match_ann_effect:
  assumes ne: "anchors_of_level self \<noteq> []"
    and anchors: "\<forall>lvl\<in>set (anchors_of_level self). flat_anchors lvl \<noteq> []"
    and ok: "list_all2 level_ok (anchors_of_level self) targets"
  shows "\<exists>targets' f_i ind.
           match_ann iou self ann targets = Inr targets'
         \<and> list_all2 level_ok (anchors_of_level self) targets'
         \<and> is_max_iou_anchor iou self ann f_i ind
         \<and> (\<forall>f k. f < length (anchors_of_level self)
                 \<and> k < length (flat_anchors (anchors_of_level self ! f)) \<longrightarrow>
               (if writes_anchor iou self ann f k
                then holds_targets_of self ann (fst (targets' ! f)) (fst (snd (targets' ! f))) f k
                else fst (snd (targets' ! f)) ! k = fst (snd (targets ! f)) ! k
                   \<and> fst (targets' ! f) ! k = fst (targets ! f) ! k))"
proof -
  let ?levels = "anchors_of_level self"
  let ?label = "get_label self ann"
  let ?gt = "ltwh_to_xywh (get_bbox self ann)"
  let ?enc = "\<lambda>f k. coords_to_target_fn self ?gt (flat_anchors (?levels ! f) ! k) (location (?levels ! f))"
  from match_ann_steps [OF ne anchors ok, of iou ann] obtain max_ious tgs f_i ind where
    ml: "match_levels iou self ?label ?gt (zip ?levels targets) = Inr (max_ious, tgs)"
    and oks: "list_all2 level_ok ?levels tgs"
    and mx: "is_max_iou_anchor iou self ann f_i ind"
    and res: "match_ann iou self ann targets
             = Inr (tgs[f_i := ((fst (tgs ! f_i))[ind := ?enc f_i ind],
                                (fst (snd (tgs ! f_i)))[ind := ?label],
                                snd (snd (tgs ! f_i)))])"
    by blast
  let ?new = "((fst (tgs ! f_i))[ind := ?enc f_i ind], (fst (snd (tgs ! f_i)))[ind := ?label],
               snd (snd (tgs ! f_i)))"
  let ?targets' = "tgs[f_i := ?new]"
  have f_i: "f_i < length ?levels" and ind: "ind < length (flat_anchors (?levels ! f_i))"
    using mx by (simp_all add: is_max_iou_anchor_def Let_def)
  have lentgs: "length tgs = length ?levels"
    using oks by (simp add: list_all2_lengthD)
  have okf: "level_ok (?levels ! f) (tgs ! f)" if "f < length ?levels" for f
    using oks that by (simp add: list_all2_nthD)
  have ok': "list_all2 level_ok ?levels ?targets'"
  proof (rule list_all2_all_nthI)
    show "length ?levels = length ?targets'" using lentgs by simp
  next
    fix f assume f: "f < length ?levels"
    show "level_ok (?levels ! f) (?targets' ! f)"
    proof (cases "f = f_i")
      case True
      then show ?thesis
        using f lentgs okf [OF f] by (simp add: level_ok_def)
    next
      case False
      then show ?thesis
        using okf [OF f] by simp
    qed
  qed
  have eff: "if writes_anchor iou self ann f k
             then holds_targets_of self ann (fst (?targets' ! f)) (fst (snd (?targets' ! f))) f k
             else fst (snd (?targets' ! f)) ! k = fst (snd (targets ! f)) ! k
                \<and> fst (?targets' ! f) ! k = fst (targets ! f) ! k"
    if f: "f < length ?levels" and k: "k < length (flat_anchors (?levels ! f))" for f k
  proof (cases "f = f_i \<and> k = ind")
    case True
    have lens: "ind < length (fst (tgs ! f_i))" "ind < length (fst (snd (tgs ! f_i)))"
      using okf [OF f_i] ind by (simp_all add: level_ok_def)
    have "writes_anchor iou self ann f k"
      using mx True by (simp add: writes_anchor_def)
    moreover have "?targets' ! f_i = ?new" using f_i lentgs by simp
    ultimately show ?thesis
      using True lens by (simp add: holds_targets_of_def)
  next
    case False
    have notmax: "\<not> is_max_iou_anchor iou self ann f k"
      using is_max_iou_anchor_unique [OF mx] False by blast
    have same: "fst (snd (?targets' ! f)) ! k = fst (snd (tgs ! f)) ! k
              \<and> fst (?targets' ! f) ! k = fst (tgs ! f) ! k"
    proof (cases "f = f_i")
      case True
      then have "k \<noteq> ind" using False by simp
      moreover have "?targets' ! f = ?new" using True f_i lentgs by simp
      ultimately show ?thesis using True by simp
    next
      case False
      then show ?thesis by simp
    qed
    from match_levels_effect [OF ok ml f k]
    show ?thesis
      using notmax same
      by (simp add: writes_anchor_def anchor_iou_def holds_targets_of_def split: if_splits)
  qed
  from res ok' mx eff show ?thesis by blast
qed

lemma match_anns_snoc:
  "match_anns iou self (anns @ [ann]) targets
     = bind_err (match_anns iou self anns targets) (match_ann iou self ann)"
proof (induction anns arbitrary: targets)
  case Nil
  show ?case by (simp add: bind_err_def split: sum.splits)
next
  case (Cons a anns)
  show ?case
    by (cases "match_ann iou self a targets") (simp_all add: bind_err_def Cons.IH [unfolded bind_err_def])
qed

lemma match_anns_effect:
  assumes ne: "anchors_of_level self \<noteq> []"
    and anchors: "\<forall>lvl\<in>set (anchors_of_level self). flat_anchors lvl \<noteq> []"
    and ok: "list_all2 level_ok (anchors_of_level self) targets"
  shows "\<exists>final.
           match_anns iou self anns targets = Inr final
         \<and> list_all2 level_ok (anchors_of_level self) final
         \<and> (\<forall>f k. f < length (anchors_of_level self)
                 \<and> k < length (flat_anchors (anchors_of_level self ! f)) \<longrightarrow>
               (\<forall>m. m < length anns \<and> writes_anchor iou self (anns ! m) f k
                    \<and> (\<forall>j. m < j \<and> j < length anns \<longrightarrow> \<not> writes_anchor iou self (anns ! j) f k)
                  \<longrightarrow> holds_targets_of self (anns ! m) (fst (final ! f)) (fst (snd (final ! f))) f k)
             \<and> ((\<forall>j. j < length anns \<longrightarrow> \<not> writes_anchor iou self (anns ! j) f k)
                  \<longrightarrow> fst (snd (final ! f)) ! k = fst (snd (targets ! f)) ! k
                    \<and> fst (final ! f) ! k = fst (targets ! f) ! k))"
proof (induction anns rule: rev_induct)
  case Nil
  show ?case using ok by simp
next
  case (snoc a anns)
  let ?levels = "anchors_of_level self"
  let ?W = "\<lambda>ann f k. writes_anchor iou self ann f k"
  from snoc.IH obtain t1 where
    t1: "match_anns iou self anns targets = Inr t1"
    and ok1: "list_all2 level_ok ?levels t1"
    and last1: "\<And>f k m. \<lbrakk>f < length ?levels; k < length (flat_anchors (?levels ! f));
                  m < length anns; ?W (anns ! m) f k;
                  \<forall>j. m < j \<and> j < length anns \<longrightarrow> \<not> ?W (anns ! j) f k\<rbrakk>
               \<Longrightarrow> holds_targets_of self (anns ! m) (fst (t1 ! f)) (fst (snd (t1 ! f))) f k"
    and none1: "\<And>f k. \<lbrakk>f < length ?levels; k < length (flat_anchors (?levels ! f));
                  \<forall>j. j < length anns \<longrightarrow> \<not> ?W (anns ! j) f k\<rbrakk>
               \<Longrightarrow> fst (snd (t1 ! f)) ! k = fst (snd (targets ! f)) ! k
                 \<and> fst (t1 ! f) ! k = fst (targets ! f) ! k"
    by blast
  from match_ann_effect [OF ne anchors ok1, of iou a] obtain final where
    fin: "match_ann iou self a t1 = Inr final"
    and okf: "list_all2 level_ok ?levels final"
    and eff: "\<And>f k. \<lbrakk>f < length ?levels; k < length (flat_anchors (?levels ! f))\<rbrakk> \<Longrightarrow>
               (if ?W a f k
                then holds_targets_of self a (fst (final ! f)) (fst (snd (final ! f))) f k
                else fst (snd (final ! f)) ! k = fst (snd (t1 ! f)) ! k
                   \<and> fst (final ! f) ! k = fst (t1 ! f) ! k)"
    by blast
  have res: "match_anns iou self (anns @ [a]) targets = Inr final"
    by (simp add: match_anns_snoc t1 fin bind_err_def)
  have main: "(\<forall>m. m < length (anns @ [a]) \<and> ?W ((anns @ [a]) ! m) f k
                  \<and> (\<forall>j. m < j \<and> j < length (anns @ [a]) \<longrightarrow> \<not> ?W ((anns @ [a]) ! j) f k)
                \<longrightarrow> holds_targets_of self ((anns @ [a]) ! m) (fst (final ! f)) (fst (snd (final ! f))) f k)
           \<and> ((\<forall>j. j < length (anns @ [a]) \<longrightarrow> \<not> ?W ((anns @ [a]) ! j) f k)
                \<longrightarrow> fst (snd (final ! f)) ! k = fst (snd (targets ! f)) ! k
                  \<and> fst (final ! f) ! k = fst (targets ! f) ! k)"
    if f: "f < length ?levels" and k: "k < length (flat_anchors (?levels ! f))" for f k
  proof (intro conjI allI impI)
    fix m
    assume m: "m < length (anns @ [a]) \<and> ?W ((anns @ [a]) ! m) f k
                  \<and> (\<forall>j. m < j \<and> j < length (anns @ [a]) \<longrightarrow> \<not> ?W ((anns @ [a]) ! j) f k)"
    show "holds_targets_of self ((anns @ [a]) ! m) (fst (final ! f)) (fst (snd (final ! f))) f k"
    proof (cases "m = length anns")
      case True
      then have "?W a f k" using m by simp
      then show ?thesis using eff [OF f k] True by simp
    next
      case False
      then have ml: "m < length anns" using m by simp
      have wm: "?W (anns ! m) f k" using m ml by (simp add: nth_append)
      have "\<not> ?W ((anns @ [a]) ! length anns) f k"
        using m ml by (metis length_append_singleton lessI)
      then have na: "\<not> ?W a f k" by simp
      have later: "\<forall>j. m < j \<and> j < length anns \<longrightarrow> \<not> ?W (anns ! j) f k"
      proof (intro allI impI)
        fix j assume j: "m < j \<and> j < length anns"
        then have "\<not> ?W ((anns @ [a]) ! j) f k" using m by simp
        then show "\<not> ?W (anns ! j) f k" using j by (simp add: nth_append)
      qed
      have "holds_targets_of self (anns ! m) (fst (t1 ! f)) (fst (snd (t1 ! f))) f k"
        using f k ml wm later by (rule last1)
      moreover have "fst (snd (final ! f)) ! k = fst (snd (t1 ! f)) ! k
                   \<and> fst (final ! f) ! k = fst (t1 ! f) ! k"
        using eff [OF f k] na by simp
      ultimately show ?thesis
        using ml by (simp add: holds_targets_of_def nth_append)
    qed
  next
    assume no: "\<forall>j. j < length (anns @ [a]) \<longrightarrow> \<not> ?W ((anns @ [a]) ! j) f k"
    have "\<not> ?W ((anns @ [a]) ! length anns) f k"
      using no by (metis length_append_singleton lessI)
    then have na: "\<not> ?W a f k" by simp
    have none: "\<forall>j. j < length anns \<longrightarrow> \<not> ?W (anns ! j) f k"
    proof (intro allI impI)
      fix j assume j: "j < length anns"
      then have "\<not> ?W ((anns @ [a]) ! j) f k" using no by simp
      then show "\<not> ?W (anns ! j) f k" using j by (simp add: nth_append)
    qed
    have s1: "fst (snd (t1 ! f)) ! k = fst (snd (targets ! f)) ! k
            \<and> fst (t1 ! f) ! k = fst (targets ! f) ! k"
      using f k none by (rule none1)
    have s2: "fst (snd (final ! f)) ! k = fst (snd (t1 ! f)) ! k
            \<and> fst (final ! f) ! k = fst (t1 ! f) ! k"
      using eff [OF f k] na by simp
    show "fst (snd (final ! f)) ! k = fst (snd (targets ! f)) ! k" using s1 s2 by simp
    show "fst (final ! f) ! k = fst (targets ! f) ! k" using s1 s2 by simp
  qed
  from res okf main show ?case by blast
qed

lemma of_level_per_level:
  assumes "f < length xs" and "single \<longleftrightarrow> length xs = 1"
  shows "of_level (per_level single xs) f = xs ! f"
  using assms by (auto simp: per_level_def)

lemma last_writer_exists:
  assumes "n < length anns" and "W (anns ! n)"
  shows "\<exists>m. n \<le> m \<and> m < length anns \<and> W (anns ! m)
           \<and> (\<forall>j. m < j \<and> j < length anns \<longrightarrow> \<not> W (anns ! j))"
proof -
  let ?S = "{j. j < length anns \<and> W (anns ! j)}"
  have fin: "finite ?S" by simp
  have nS: "n \<in> ?S" using assms by simp
  then have ne: "?S \<noteq> {}" by blast
  have "Max ?S \<in> ?S" using fin ne by (rule Max_in)
  moreover have "n \<le> Max ?S" using fin nS by (rule Max_ge)
  moreover have "\<not> W (anns ! j)" if "Max ?S < j" "j < length anns" for j
  proof
    assume "W (anns ! j)"
    then have "j \<in> ?S" using that by simp
    then have "j \<le> Max ?S" using fin by (simp add: Max_ge)
    then show False using that by simp
  qed
  ultimately show ?thesis by blast
qed

lemma example_ious_overlapping:
  "iou_xywh (1/2, 1/2, 1, 1) (1/2, 1/2, 1, 1) = 1"
  "iou_xywh (1/2, 1/2, 1, 1) (1/2, 1/2, 1/2, 1/2) = 1/4"
  "iou_xywh (1/2, 9/20, 1, 9/10) (1/2, 1/2, 1, 1) = 9/10"
  "iou_xywh (1/2, 9/20, 1, 9/10) (1/2, 1/2, 1/2, 1/2) = 5/18"
  by (simp_all add: iou_xywh_def iou_ltrb_def xywh_to_ltrb_def Let_def)

lemma example_boxes:
  "ltwh_to_xywh (0, 0, 1, 1) = (1/2, 1/2, 1, 1)"
  "ltwh_to_xywh (0, 0, 1, 9/10) = (1/2, 9/20, 1, 9/10)"
  "ltwh_to_xywh (0, 0, 1/2, 1) = (1/4, 1/2, 1/2, 1)"
  "ltwh_to_xywh (1/4, 1/4, 1/2, 2/5) = (1/2, 9/20, 1/2, 2/5)"
  by (simp_all add: ltwh_to_xywh_def)

lemma example_ious_separate:
  "iou_xywh (1/4, 1/2, 1/2, 1) (1/2, 1/2, 1, 1) = 1/2"
  "iou_xywh (1/4, 1/2, 1/2, 1) (1/2, 1/2, 1/2, 1/2) = 1/5"
  "iou_xywh (1/2, 9/20, 1/2, 2/5) (1/2, 1/2, 1, 1) = 1/5"
  "iou_xywh (1/2, 9/20, 1/2, 2/5) (1/2, 1/2, 1/2, 1/2) = 4/5"
  by (simp_all add: iou_xywh_def iou_ltrb_def xywh_to_ltrb_def Let_def)

lemma overlapping_call:
  "MultiLevelAnchorMatching_call iou_xywh example_matching img overlapping_anns
     = Inr (img,
            Levels [[(0, -1/20, 0, ln (9/10))], [(0, -1/20, 0, ln (9/10)), (0, 0, 0, 0)]],
            Levels [[9], [9, 0]], None)"
  by (simp add: MultiLevelAnchorMatching_call_def targets_after_def example_matching_def
      overlapping_anns_def init_targets_def truthy_def per_level_def
      match_ann_def match_level_def torch_max_def py_max_def bind_err_def
      example_boxes example_ious_overlapping select_mask_def fill_mask_def
      coords_to_target_def Let_def)

lemma separate_call:
  "MultiLevelAnchorMatching_call iou_xywh example_matching img separate_anns
     = Inr (img,
            Levels [[(-1/4, 0, ln (1/2), 0)], [(0, 0, 0, 0), (0, -1/10, 0, ln (4/5))]],
            Levels [[7], [0, 9]], None)"
  by (simp add: MultiLevelAnchorMatching_call_def targets_after_def example_matching_def
      separate_anns_def init_targets_def truthy_def per_level_def
      match_ann_def match_level_def torch_max_def py_max_def bind_err_def
      example_boxes example_ious_separate select_mask_def fill_mask_def
      coords_to_target_def Let_def)

lemma example_levels:
  "f < length (anchors_of_level example_matching)
     \<and> k < length (flat_anchors (anchors_of_level example_matching ! f))
   \<longleftrightarrow> (f = 0 \<and> k = 0) \<or> (f = Suc 0 \<and> (k = 0 \<or> k = Suc 0))"
  by (auto simp: example_matching_def flat_anchors_def less_Suc_eq nth_Cons')

lemma example_anchor_iou:
  "anchor_iou iou_xywh example_matching (overlapping_anns ! 0) 0 0 = 1"
  "anchor_iou iou_xywh example_matching (overlapping_anns ! 0) (Suc 0) 0 = 1"
  "anchor_iou iou_xywh example_matching (overlapping_anns ! 0) (Suc 0) (Suc 0) = 1/4"
  "anchor_iou iou_xywh example_matching (overlapping_anns ! Suc 0) 0 0 = 9/10"
  "anchor_iou iou_xywh example_matching (overlapping_anns ! Suc 0) (Suc 0) 0 = 9/10"
  "anchor_iou iou_xywh example_matching (overlapping_anns ! Suc 0) (Suc 0) (Suc 0) = 5/18"
  by (simp_all add: anchor_iou_def example_matching_def overlapping_anns_def flat_anchors_def
      example_boxes example_ious_overlapping)

lemma overlapping_max_anchor:
  "is_max_iou_anchor iou_xywh example_matching (overlapping_anns ! 0) 0 0"
proof -
  have "0 < length (anchors_of_level example_matching)"
    and "0 < length (flat_anchors (anchors_of_level example_matching ! 0))"
    by (simp_all add: example_matching_def flat_anchors_def)
  then show ?thesis
    unfolding is_max_iou_anchor_def Let_def example_levels
    by (auto simp: example_anchor_iou)
qed

lemma separate_anchor_iou:
  "anchor_iou iou_xywh example_matching (separate_anns ! 0) 0 0 = 1/2"
  "anchor_iou iou_xywh example_matching (separate_anns ! 0) (Suc 0) 0 = 1/2"
  "anchor_iou iou_xywh example_matching (separate_anns ! 0) (Suc 0) (Suc 0) = 1/5"
  "anchor_iou iou_xywh example_matching (separate_anns ! Suc 0) 0 0 = 1/5"
  "anchor_iou iou_xywh example_matching (separate_anns ! Suc 0) (Suc 0) 0 = 1/5"
  "anchor_iou iou_xywh example_matching (separate_anns ! Suc 0) (Suc 0) (Suc 0) = 4/5"
  by (simp_all add: anchor_iou_def example_matching_def separate_anns_def flat_anchors_def
      example_boxes example_ious_separate)

lemma separate_max_anchor:
  "is_max_iou_anchor iou_xywh example_matching (separate_anns ! 0) 0 0"
proof -
  have "0 < length (anchors_of_level example_matching)"
    and "0 < length (flat_anchors (anchors_of_level example_matching ! 0))"
    by (simp_all add: example_matching_def flat_anchors_def)
  then show ?thesis
    unfolding is_max_iou_anchor_def Let_def example_levels
    by (auto simp: separate_anchor_iou)
qed

lemma separate_not_written:
  "\<not> writes_anchor iou_xywh example_matching (separate_anns ! Suc 0) 0 0"
proof -
  have "\<not> is_max_iou_anchor iou_xywh example_matching (separate_anns ! Suc 0) 0 0"
    unfolding is_max_iou_anchor_def Let_def example_levels
    by (auto simp: separate_anchor_iou)
  then show ?thesis
    by (simp add: writes_anchor_def separate_anchor_iou) (simp add: example_matching_def)
qed

text \<open>
  C3 as stated fails for the targets that \<open>__call__\<close> returns.  Two annotations, the
  whole square with label 4 and its lower nine tenths with label 9: for both the anchor
  of maximal IoU is the anchor of the first level, and the second annotation overwrites
  what the first one stored there.  No anchor carries the label 4 in the end.
\<close>

theorem max_iou_anchor_overwritten:
  "MultiLevelAnchorMatching_call iou_xywh example_matching () overlapping_anns
     = Inr ((),
            Levels [[(0, -1/20, 0, ln (9/10))], [(0, -1/20, 0, ln (9/10)), (0, 0, 0, 0)]],
            Levels [[9], [9, 0]], None)
   \<and> is_max_iou_anchor iou_xywh example_matching (overlapping_anns ! 0) 0 0
   \<and> get_label example_matching (overlapping_anns ! 0) = 4
   \<and> \<not> holds_targets_of example_matching (overlapping_anns ! 0)
         (of_level (Levels [[(0, -1/20, 0, ln (9/10))], [(0, -1/20, 0, ln (9/10)), (0, 0, 0, 0)]]) 0)
         (of_level (Levels [[9], [9, 0]]) 0) 0 0"
  by (simp add: overlapping_call overlapping_max_anchor holds_targets_of_def)
     (simp add: example_matching_def overlapping_anns_def)

text \<open>
  C3, amended.  For every annotation (the \<open>n\<close>-th of \<open>anns\<close>) there is one anchor of
  maximal IoU over all levels, the first one by level and then by index.  When \<open>__call__\<close>
  has processed the annotation, this anchor holds the annotation's label in
  \<open>cls_targets\<close> and the encoded coordinates in \<open>loc_targets\<close>, whatever \<open>pos_thresh\<close> is.
  In the targets that \<open>__call__\<close> returns it holds the label and the encoding of the last
  annotation \<open>m\<close> that wrote it, as its own anchor of maximal IoU or because its IoU with
  the anchor exceeds \<open>pos_thresh\<close>; this is the annotation itself when no later annotation
  wrote the anchor.  (\<open>__call__\<close> does not read the flag \<open>max_iou\<close>, so this holds
  whether it is set or not; there is at least one level and every level has an anchor,
  otherwise \<open>__call__\<close> raises on the first annotation.)
\<close>

theorem max_iou_anchor_assigned:
  assumes "anchors_of_level self \<noteq> []"
    and "\<forall>lvl\<in>set (anchors_of_level self). flat_anchors lvl \<noteq> []"
    and "n < length anns"
  shows "\<exists>loc_targets cls_targets ignores targets f_i ind m.
           MultiLevelAnchorMatching_call iou self img anns
             = Inr (img, loc_targets, cls_targets, ignores)
         \<and> is_max_iou_anchor iou self (anns ! n) f_i ind
         \<and> targets_after iou self (take (Suc n) anns) = Inr targets
         \<and> holds_targets_of self (anns ! n) (fst (targets ! f_i)) (fst (snd (targets ! f_i))) f_i ind
         \<and> n \<le> m \<and> m < length anns
         \<and> writes_anchor iou self (anns ! m) f_i ind
         \<and> (\<forall>j. m < j \<and> j < length anns \<longrightarrow> \<not> writes_anchor iou self (anns ! j) f_i ind)
         \<and> holds_targets_of self (anns ! m) (of_level loc_targets f_i) (of_level cls_targets f_i) f_i ind
         \<and> ((\<forall>j. n < j \<and> j < length anns \<longrightarrow> \<not> writes_anchor iou self (anns ! j) f_i ind)
              \<longrightarrow> m = n)"
proof -
  let ?levels = "anchors_of_level self"
  let ?init = "init_targets ?levels (neg_thresh self)"
  have ok0: "list_all2 level_ok ?levels ?init"
    by (rule init_targets_ok)
  from match_anns_effect [OF assms(1,2) ok0, of iou "take n anns"] obtain t0 where
    t0: "match_anns iou self (take n anns) ?init = Inr t0"
    and okt0: "list_all2 level_ok ?levels t0" by blast
  from match_ann_effect [OF assms(1,2) okt0, of iou "anns ! n"] obtain targets f_i ind where
    res: "match_ann iou self (anns ! n) t0 = Inr targets"
    and mx: "is_max_iou_anchor iou self (anns ! n) f_i ind"
    and eff: "\<forall>f k. f < length ?levels \<and> k < length (flat_anchors (?levels ! f)) \<longrightarrow>
               (if writes_anchor iou self (anns ! n) f k
                then holds_targets_of self (anns ! n) (fst (targets ! f)) (fst (snd (targets ! f))) f k
                else fst (snd (targets ! f)) ! k = fst (snd (t0 ! f)) ! k
                   \<and> fst (targets ! f) ! k = fst (t0 ! f) ! k)"
    by blast
  have f_i: "f_i < length ?levels" and ind: "ind < length (flat_anchors (?levels ! f_i))"
    using mx by (simp_all add: is_max_iou_anchor_def Let_def)
  have wn: "writes_anchor iou self (anns ! n) f_i ind"
    using mx by (simp add: writes_anchor_def)
  have holds_n: "holds_targets_of self (anns ! n) (fst (targets ! f_i)) (fst (snd (targets ! f_i))) f_i ind"
    using eff f_i ind wn by simp
  have tk: "take (Suc n) anns = take n anns @ [anns ! n]"
    using assms(3) by (rule take_Suc_conv_app_nth)
  have pre: "targets_after iou self (take (Suc n) anns) = Inr targets"
    by (simp add: tk targets_after_def match_anns_snoc t0 res bind_err_def)
  from match_anns_effect [OF assms(1,2) ok0, of iou anns] obtain final where
    fin: "match_anns iou self anns ?init = Inr final"
    and okf: "list_all2 level_ok ?levels final"
    and last: "\<forall>f k. f < length ?levels \<and> k < length (flat_anchors (?levels ! f)) \<longrightarrow>
               (\<forall>m. m < length anns \<and> writes_anchor iou self (anns ! m) f k
                    \<and> (\<forall>j. m < j \<and> j < length anns \<longrightarrow> \<not> writes_anchor iou self (anns ! j) f k)
                  \<longrightarrow> holds_targets_of self (anns ! m) (fst (final ! f)) (fst (snd (final ! f))) f k)"
    by blast
  from last_writer_exists [of n anns "\<lambda>ann. writes_anchor iou self ann f_i ind", OF assms(3) wn]
  obtain m where m: "n \<le> m" "m < length anns" "writes_anchor iou self (anns ! m) f_i ind"
    "\<forall>j. m < j \<and> j < length anns \<longrightarrow> \<not> writes_anchor iou self (anns ! j) f_i ind"
    by blast
  have holds_m: "holds_targets_of self (anns ! m) (fst (final ! f_i)) (fst (snd (final ! f_i))) f_i ind"
    using last f_i ind m by blast
  have lenf: "length final = length ?levels"
    using okf by (simp add: list_all2_lengthD)
  define single where "single \<longleftrightarrow> length ?levels = 1"
  define loc_targets where "loc_targets = per_level single (map fst final)"
  define cls_targets where "cls_targets = per_level single (map (\<lambda>t. fst (snd t)) final)"
  define ignores where "ignores =
     (if truthy (neg_thresh self)
      then Some (per_level single (map (\<lambda>t. map Not (the (snd (snd t)))) final)) else None)"
  have call: "MultiLevelAnchorMatching_call iou self img anns
                = Inr (img, loc_targets, cls_targets, ignores)"
    by (simp add: MultiLevelAnchorMatching_call_def targets_after_def fin bind_err_def Let_def
        loc_targets_def cls_targets_def ignores_def single_def)
  have "of_level loc_targets f_i = map fst final ! f_i"
    unfolding loc_targets_def using f_i lenf
    by (intro of_level_per_level) (simp_all add: single_def)
  then have loc: "of_level loc_targets f_i = fst (final ! f_i)"
    using f_i lenf by simp
  have "of_level cls_targets f_i = map (\<lambda>t. fst (snd t)) final ! f_i"
    unfolding cls_targets_def using f_i lenf
    by (intro of_level_per_level) (simp_all add: single_def)
  then have cls: "of_level cls_targets f_i = fst (snd (final ! f_i))"
    using f_i lenf by simp
  have holds_ret: "holds_targets_of self (anns ! m) (of_level loc_targets f_i)
                     (of_level cls_targets f_i) f_i ind"
    using holds_m by (simp add: loc cls)
  have only: "m = n"
    if "\<forall>j. n < j \<and> j < length anns \<longrightarrow> \<not> writes_anchor iou self (anns ! j) f_i ind"
  proof (rule ccontr)
    assume "m \<noteq> n"
    then have "n < m" using m(1) by simp
    then show False using that m(2,3) by blast
  qed
  from call mx pre holds_n m holds_ret only show ?thesis by blast
qed

theorem max_iou_anchor_assigned_witness:
  "MultiLevelAnchorMatching_call iou_xywh example_matching () separate_anns
     = Inr ((),
            Levels [[(-1/4, 0, ln (1/2), 0)], [(0, 0, 0, 0), (0, -1/10, 0, ln (4/5))]],
            Levels [[7], [0, 9]], None)
   \<and> is_max_iou_anchor iou_xywh example_matching (separate_anns ! 0) 0 0
   \<and> anchor_iou iou_xywh example_matching (separate_anns ! 0) 0 0 = 1/2
   \<and> pos_thresh example_matching = Some (1/2)
   \<and> holds_targets_of example_matching (separate_anns ! 0)
        (of_level (Levels [[(-1/4, 0, ln (1/2), 0)], [(0, 0, 0, 0), (0, -1/10, 0, ln (4/5))]]) 0)
        (of_level (Levels [[7], [0, 9]]) 0) 0 0"
proof -
  have "anchors_of_level example_matching \<noteq> []"
    and "\<forall>lvl\<in>set (anchors_of_level example_matching). flat_anchors lvl \<noteq> []"
    and "0 < length separate_anns"
    by (simp_all add: example_matching_def flat_anchors_def separate_anns_def)
  from max_iou_anchor_assigned [OF this, of iou_xywh "()"]
  obtain loc_targets cls_targets ignores f_i ind m where
    call: "MultiLevelAnchorMatching_call iou_xywh example_matching () separate_anns
             = Inr ((), loc_targets, cls_targets, ignores)"
    and mx: "is_max_iou_anchor iou_xywh example_matching (separate_anns ! 0) f_i ind"
    and m: "m < length separate_anns"
    and holds: "holds_targets_of example_matching (separate_anns ! m)
                  (of_level loc_targets f_i) (of_level cls_targets f_i) f_i ind"
    and only: "(\<forall>j. 0 < j \<and> j < length separate_anns
                   \<longrightarrow> \<not> writes_anchor iou_xywh example_matching (separate_anns ! j) f_i ind)
               \<longrightarrow> m = 0"
    by blast
  have at: "f_i = 0 \<and> ind = 0"
    using mx separate_max_anchor by (rule is_max_iou_anchor_unique)
  have "j = Suc 0" if "0 < j" "j < length separate_anns" for j
    using that by (simp add: separate_anns_def)
  then have "\<forall>j. 0 < j \<and> j < length separate_anns
               \<longrightarrow> \<not> writes_anchor iou_xywh example_matching (separate_anns ! j) 0 0"
    using separate_not_written by metis
  then have "m = 0" using only at by simp
  with holds at call show ?thesis
    by (simp add: separate_call separate_max_anchor separate_anchor_iou)
       (simp add: example_matching_def)
qed

text \<open>
  \<open>__call__\<close> does not read \<open>max_iou\<close>: the flag changes nothing in what is returned,
  and the anchor of maximal IoU is written also when the flag is off.
\<close>

lemma match_level_max_iou_flag:
  "match_level iou (self\<lparr>max_iou := b\<rparr>) label gt_box lv = match_level iou self label gt_box lv"
  by (simp add: match_level_def Let_def split: prod.splits)

lemma match_levels_max_iou_flag:
  "match_levels iou (self\<lparr>max_iou := b\<rparr>) label gt_box lvs = match_levels iou self label gt_box lvs"
  by (induction lvs) (simp_all add: match_level_max_iou_flag)

lemma match_ann_max_iou_flag:
  "match_ann iou (self\<lparr>max_iou := b\<rparr>) ann targets = match_ann iou self ann targets"
  by (simp add: match_ann_def match_levels_max_iou_flag Let_def split: prod.splits)

lemma match_anns_max_iou_flag:
  "match_anns iou (self\<lparr>max_iou := b\<rparr>) anns targets = match_anns iou self anns targets"
proof (induction anns arbitrary: targets)
  case Nil
  show ?case by simp
next
  case (Cons a anns)
  have "match_anns iou (self\<lparr>max_iou := b\<rparr>) anns = match_anns iou self anns"
    using Cons.IH by blast
  then show ?case by (simp add: match_ann_max_iou_flag)
qed

lemma call_ignores_max_iou_flag:
  "MultiLevelAnchorMatching_call iou (self\<lparr>max_iou := b\<rparr>) img anns
     = MultiLevelAnchorMatching_call iou self img anns"
  by (simp add: MultiLevelAnchorMatching_call_def targets_after_def match_anns_max_iou_flag Let_def)

subsection \<open>\<open>match_anchors\<close> against \<open>match_anchors2\<close>\<close>

lemma example_ious:
  "iou_mn iou_ltrb (map xywh_to_ltrb (map (\<lambda>ann. ltwh_to_xywh (bbox ann)) example_anns)) example_a_ltrb
     = [[1, 1/3, 3/5, 0], [1/3, 1, 3/5, 0]]"
  by (simp add: example_anns_def example_a_ltrb_def example_a_xywh_def iou_mn_def iou_ltrb_def
      ltwh_to_xywh_def xywh_to_ltrb_def Let_def)

lemma match_anchors_example:
  "match_anchors iou_ltrb example_anns example_a_xywh example_a_ltrb (1/2) None get_lbl
     = Inr ([(0, 0, 0, 0), (0, 0, 0, 0), (1/4, 0, 0, 0), (0, 0, 0, 0)],
            [get_lbl (example_anns ! 0), get_lbl (example_anns ! 1), get_lbl (example_anns ! 1), 0],
            None)"
  unfolding match_anchors_def Let_def example_ious
  by (simp add: example_anns_def example_a_ltrb_def example_a_xywh_def ltwh_to_xywh_def
      select_mask_def fill_mask_def max_dim1_def torch_max_def py_max_def
      bind_err_def assign_max_def truthy_def coords_to_target_def Let_def)

lemma match_anchors2_example:
  "match_anchors2 iou_ltrb example_anns example_a_xywh example_a_ltrb (1/2) None category_id
     = Inr ([(0, 0, 0, 0), (0, 0, 0, 0), (-1/4, 0, 0, 0), (-5/2, -5/2, 0, 0)], [5, 2, 5, 0], None)"
  unfolding match_anchors2_def Let_def example_ious
  by (simp add: example_anns_def example_a_ltrb_def example_a_xywh_def ltwh_to_xywh_def
      max_dim0_def max_dim0_at_def select0_def select1_def coords_to_target2_def
      max_dim1_def torch_max_def py_max_def upt_rec
      bind_err_def assign_max_def truthy_def coords_to_target_def Let_def)

lemma match_anchors2_example_one_label:
  "match_anchors2 iou_ltrb example_anns example_a_xywh example_a_ltrb (1/2) None MatchAnchors_get_label
     = Inr ([(0, 0, 0, 0), (0, 0, 0, 0), (-1/4, 0, 0, 0), (-5/2, -5/2, 0, 0)], [1, 1, 1, 0], None)"
  unfolding match_anchors2_def Let_def example_ious
  by (simp add: example_anns_def example_a_ltrb_def example_a_xywh_def ltwh_to_xywh_def
      max_dim0_def max_dim0_at_def select0_def select1_def coords_to_target2_def
      max_dim1_def torch_max_def py_max_def upt_rec MatchAnchors_get_label_def
      bind_err_def assign_max_def truthy_def coords_to_target_def Let_def)

text \<open>
  C2.  The two functions that \<open>MatchAnchors.__call__\<close> chooses between by the device of
  the anchors do not return the same targets.  On two overlapping boxes of categories 5
  and 2 and four anchors, with \<open>pos_thresh = 0.5\<close>: at the third anchor, whose IoU with
  both boxes exceeds the threshold, \<open>match_anchors\<close> (CPU) stores the label and encoding
  of the last such box, \<open>match_anchors2\<close> the greatest label and the encoding of the
  first box that carries it; at the fourth anchor, which no box matches, \<open>match_anchors\<close>
  leaves the \<open>loc_t\<close> row zero and \<open>match_anchors2\<close> stores an encoding.  With the
  \<open>get_label\<close> of \<open>MatchAnchors\<close>, constantly 1, the labels agree and the \<open>loc_t\<close>
  rows of both anchors still differ.
\<close>

theorem match_anchors_diverge:
  "match_func True iou_ltrb example_anns example_a_xywh example_a_ltrb (1/2) None category_id
     = Inr ([(0, 0, 0, 0), (0, 0, 0, 0), (1/4, 0, 0, 0), (0, 0, 0, 0)], [5, 2, 2, 0], None)
   \<and> match_func False iou_ltrb example_anns example_a_xywh example_a_ltrb (1/2) None category_id
     = Inr ([(0, 0, 0, 0), (0, 0, 0, 0), (-1/4, 0, 0, 0), (-5/2, -5/2, 0, 0)], [5, 2, 5, 0], None)
   \<and> match_func True iou_ltrb example_anns example_a_xywh example_a_ltrb (1/2) None MatchAnchors_get_label
     = Inr ([(0, 0, 0, 0), (0, 0, 0, 0), (1/4, 0, 0, 0), (0, 0, 0, 0)], [1, 1, 1, 0], None)
   \<and> match_func False iou_ltrb example_anns example_a_xywh example_a_ltrb (1/2) None MatchAnchors_get_label
     = Inr ([(0, 0, 0, 0), (0, 0, 0, 0), (-1/4, 0, 0, 0), (-5/2, -5/2, 0, 0)], [1, 1, 1, 0], None)"
proof -
  have "category_id (example_anns ! 0) = 5" "category_id (example_anns ! 1) = 2"
    by (simp_all add: example_anns_def)
  then show ?thesis
    by (simp add: match_func_def match_anchors_example match_anchors2_example
        match_anchors2_example_one_label MatchAnchors_get_label_def)
qed

end
